theory Spec2Isabelle
  imports Complex_Main "HOL-Library.Product_Lexorder" "HOL-Library.Sublist"
begin

section \<open>Upgrade-step repository: the data layer of the JSS upgrade guide\<close>

text \<open>
  A shallow embedding of \<^verbatim>\<open>JsonUpgradeStepRepository\<close> and \<^verbatim>\<open>hasUpgradePath\<close>
  (the data-layer module of the repository), function by function, under the source's names.

  Conventions of the embedding.
  \<^item> A JavaScript string is a \<^typ>\<open>string\<close>; a character stands for a code unit below 256
    (Latin-1 text), which fixes the white space of \<^verbatim>\<open>trim\<close> and \<^verbatim>\<open>\s\<close> and the
    letters of \<^verbatim>\<open>toLowerCase\<close>.
  \<^item> A JavaScript number that is a version is a \<^typ>\<open>rat\<close>: every finite double is a
    rational, comparisons of doubles are exact, and the sign of a difference of two finite
    doubles is the sign of the exact difference, which is all the comparators look at.
  \<^item> An optional field is an \<^typ>\<open>'a option\<close>; the truthiness test \<^verbatim>\<open>if (step.f)\<close> on an
    optional string is "present and not empty".
  \<^item> A \<^verbatim>\<open>Map\<close> is an association list in insertion order, a \<^verbatim>\<open>Set\<close> a list without
    repetition in insertion order: \<^verbatim>\<open>forEach\<close> and \<^verbatim>\<open>Array.from\<close> visit them in that order.
  \<^item> A \<^verbatim>\<open>Record<string, number>\<close> written as an object literal is looked up as the
    language does it: an own entry, else a member inherited from \<^verbatim>\<open>Object.prototype\<close>,
    else \<^verbatim>\<open>undefined\<close>. A number that may be \<^verbatim>\<open>NaN\<close> is a \<^typ>\<open>rat option\<close>.
  \<^item> A promise is its outcome: \<open>Inr\<close> the value it resolves to, \<open>Inl\<close> the error it
    rejects with.
  \<^item> What the module takes from outside the repository's code is a field of the record
    \<open>runtime\<close>: the MD5 digest and the rendering of a number in a template literal, which
    the engine provides, and the two catalogs its static imports bind.
\<close>

subsection \<open>Strings\<close>

definition isDigit :: "char \<Rightarrow> bool" where
  "isDigit c = (c \<in> set ''0123456789'')"

text \<open>White space and line terminators among the code units below 256: tab, line feed,
  vertical tab, form feed, carriage return, space, no-break space.\<close>

definition isWhiteSpace :: "char \<Rightarrow> bool" where
  "isWhiteSpace c = (of_char c \<in> set [9, 10, 11, 12, 13, 32, 160 :: nat])"

definition trim :: "string \<Rightarrow> string" where
  "trim s = rev (dropWhile isWhiteSpace (rev (dropWhile isWhiteSpace s)))"

definition lowerChar :: "char \<Rightarrow> char" where
  "lowerChar c =
     (let n = (of_char c :: nat)
      in if (65 \<le> n \<and> n \<le> 90) \<or> (192 \<le> n \<and> n \<le> 222 \<and> n \<noteq> 215)
         then char_of (n + 32) else c)"

definition toLowerCase :: "string \<Rightarrow> string" where
  "toLowerCase s = map lowerChar s"

definition startsWith :: "string \<Rightarrow> string \<Rightarrow> bool" where
  "startsWith s p = (take (length p) s = p)"

definition endsWith :: "string \<Rightarrow> string \<Rightarrow> bool" where
  "endsWith s p = (length p \<le> length s \<and> drop (length s - length p) s = p)"

text \<open>\<^verbatim>\<open>s.split('\n')\<close>: the pieces between line feeds; never an empty array.\<close>

fun splitLines :: "string \<Rightarrow> string list" where
  "splitLines [] = ['''']"
| "splitLines (c # cs) =
     (if c = CHR 0x0A then [] # splitLines cs
      else (case splitLines cs of l # ls \<Rightarrow> (c # l) # ls | [] \<Rightarrow> [c # []]))"

text \<open>\<^verbatim>\<open>lines.join('\n')\<close>.\<close>

fun joinLines :: "string list \<Rightarrow> string" where
  "joinLines [] = []"
| "joinLines [l] = l"
| "joinLines (l # ls) = l @ CHR 0x0A # joinLines ls"

text \<open>The decimal numeral of a natural number, as a template literal renders a counter.\<close>

definition digitChar :: "nat \<Rightarrow> char" where
  "digitChar d = ''0123456789'' ! (d mod 10)"

fun natToString :: "nat \<Rightarrow> string" where
  "natToString n = (if n < 10 then [digitChar n] else natToString (n div 10) @ [digitChar n])"

declare natToString.simps [simp del]

subsection \<open>The regular expressions of the module\<close>

text \<open>
  A matcher answers, for the text that starts at the current position, how many characters
  the pattern matches there (\<open>None\<close>: no match at this position). Every pattern of the module
  matches at least one character.
\<close>

type_synonym matcher = "string \<Rightarrow> nat option"

definition digitRun :: "string \<Rightarrow> nat" where
  "digitRun s = length (takeWhile isDigit s)"

text \<open>\<^verbatim>\<open>\d+\.\d+(\.\d+)?\<close>: the quantifiers are greedy, and a shorter run of digits is
  followed by a digit, never by the dot, so each run is the longest one.\<close>

definition matchVersion :: matcher where
  "matchVersion s =
     (let a = digitRun s in
      if a = 0 then None
      else (case drop a s of
              [] \<Rightarrow> None
            | c # r \<Rightarrow>
                if c \<noteq> CHR ''.'' then None
                else (let b = digitRun r in
                      if b = 0 then None
                      else (case drop b r of
                              [] \<Rightarrow> Some (a + 1 + b)
                            | d # r' \<Rightarrow>
                                if d = CHR ''.'' \<and> 0 < digitRun r'
                                then Some (a + 1 + b + 1 + digitRun r')
                                else Some (a + 1 + b)))))"

text \<open>A literal prefix followed by a version; \<open>ci\<close> is the flag \<^verbatim>\<open>i\<close>.\<close>

definition matchPrefixed :: "bool \<Rightarrow> string \<Rightarrow> matcher" where
  "matchPrefixed ci p s =
     (let h = take (length p) s in
      if (if ci then toLowerCase h = toLowerCase p else h = p)
      then map_option (\<lambda>n. length p + n) (matchVersion (drop (length p) s))
      else None)"

text \<open>A literal pattern.\<close>

definition matchLiteral :: "string \<Rightarrow> matcher" where
  "matchLiteral p s = (if p \<noteq> [] \<and> take (length p) s = p then Some (length p) else None)"

text \<open>\<^verbatim>\<open>\d+\.\<close>, \<^verbatim>\<open>\d+\.\s*\<close> and \<^verbatim>\<open>\d+\.\s*\*\*\<close>, used anchored at the start of a line.\<close>

definition matchNumberDot :: matcher where
  "matchNumberDot s =
     (let a = digitRun s in
      if 0 < a \<and> take 1 (drop a s) = ''.'' then Some (a + 1) else None)"

definition matchNumberDotSpaces :: matcher where
  "matchNumberDotSpaces s =
     (case matchNumberDot s of
        None \<Rightarrow> None
      | Some n \<Rightarrow> Some (n + length (takeWhile isWhiteSpace (drop n s))))"

definition matchNumberedBold :: matcher where
  "matchNumberedBold s =
     (case matchNumberDotSpaces s of
        None \<Rightarrow> None
      | Some n \<Rightarrow> if take 2 (drop n s) = ''**'' then Some (n + 2) else None)"

text \<open>\<^verbatim>\<open>s.replace(re, r)\<close> with the flag \<^verbatim>\<open>g\<close>: every match, leftmost first, the search
  resuming behind each match. The counter is the number of characters of the current
  match still to be skipped.\<close>

fun replaceFrom :: "matcher \<Rightarrow> string \<Rightarrow> nat \<Rightarrow> string \<Rightarrow> string" where
  "replaceFrom m r k [] = []"
| "replaceFrom m r (Suc k) (c # cs) = replaceFrom m r k cs"
| "replaceFrom m r 0 (c # cs) =
     (case m (c # cs) of
        Some (Suc n) \<Rightarrow> r @ replaceFrom m r n cs
      | _ \<Rightarrow> c # replaceFrom m r 0 cs)"

definition replaceAll :: "matcher \<Rightarrow> string \<Rightarrow> string \<Rightarrow> string" where
  "replaceAll m r s = replaceFrom m r 0 s"

text \<open>\<^verbatim>\<open>s.replace(re, r)\<close> without the flag \<^verbatim>\<open>g\<close>, and \<^verbatim>\<open>s.replace('lit', r)\<close>: the
  leftmost match only.\<close>

fun replaceFirst :: "matcher \<Rightarrow> string \<Rightarrow> string \<Rightarrow> string" where
  "replaceFirst m r [] = []"
| "replaceFirst m r (c # cs) =
     (case m (c # cs) of
        Some n \<Rightarrow> r @ drop n (c # cs)
      | None \<Rightarrow> c # replaceFirst m r cs)"

text \<open>\<^verbatim>\<open>s.replace(/^.../, r)\<close> and \<^verbatim>\<open>s.match(/^.../)\<close>: the start of the string only.\<close>

definition replaceAnchored :: "matcher \<Rightarrow> string \<Rightarrow> string \<Rightarrow> string" where
  "replaceAnchored m r s = (case m s of Some n \<Rightarrow> r @ drop n s | None \<Rightarrow> s)"

definition matchesAnchored :: "matcher \<Rightarrow> string \<Rightarrow> bool" where
  "matchesAnchored m s = (m s \<noteq> None)"

subsection \<open>Data model\<close>

text \<open>The interface \<^verbatim>\<open>UpgradeStep\<close>; its fields \<^verbatim>\<open>from\<close> and \<^verbatim>\<open>to\<close> are \<open>fromV\<close>
  and \<open>toV\<close> here.\<close>

record UpgradeStep =
  instruction :: string
  detailedDescription :: string
  fromV :: rat
  toV :: rat
  stepType :: "string option"
  affectedFile :: "string option"

text \<open>What the module imports from outside the repository's code. The catalogs are the
  values of the two static imports: they are bound when the module is loaded, before any of
  its functions runs.\<close>

record runtime =
  md5hex :: "string \<Rightarrow> string"
  numberToString :: "rat \<Rightarrow> string"
  nextjsSteps :: "UpgradeStep list"
  angularSteps :: "UpgradeStep list"

datatype error = LoadFailure

text \<open>\<^verbatim>\<open>if (x)\<close> on an optional string.\<close>

definition truthy :: "string option \<Rightarrow> bool" where
  "truthy x = (case x of None \<Rightarrow> False | Some s \<Rightarrow> s \<noteq> [])"

subsection \<open>Containers and sorting\<close>

text \<open>\<^verbatim>\<open>if (!m.has(k)) m.set(k, []); m.get(k).push(v)\<close> on a \<^verbatim>\<open>Map\<close>.\<close>

fun groupPush :: "'k \<Rightarrow> 'v \<Rightarrow> ('k \<times> 'v list) list \<Rightarrow> ('k \<times> 'v list) list" where
  "groupPush k v [] = [(k, [v])]"
| "groupPush k v ((k', vs) # m) =
     (if k' = k then (k', vs @ [v]) # m else (k', vs) # groupPush k v m)"

text \<open>\<^verbatim>\<open>s.add(x)\<close> on a \<^verbatim>\<open>Set\<close>.\<close>

definition setAdd :: "'a \<Rightarrow> 'a list \<Rightarrow> 'a list" where
  "setAdd x xs = (if x \<in> set xs then xs else xs @ [x])"

text \<open>\<^verbatim>\<open>Array.prototype.sort\<close> with a comparator: the stable sort the language
  prescribes, an element moving behind another only where the comparator is positive. The
  sort reads a comparator's value through \<open>sortCompare\<close>, which takes \<^verbatim>\<open>NaN\<close> for
  \<open>+0\<close>. Where a comparator is not consistent the language leaves the order to the
  engine; the insertion below is then one possible order.\<close>

definition sortCompare :: "rat option \<Rightarrow> rat" where
  "sortCompare v = (case v of None \<Rightarrow> 0 | Some r \<Rightarrow> r)"

fun insertBy :: "('a \<Rightarrow> 'a \<Rightarrow> rat) \<Rightarrow> 'a \<Rightarrow> 'a list \<Rightarrow> 'a list" where
  "insertBy cmp x [] = [x]"
| "insertBy cmp x (y # ys) = (if cmp x y \<le> 0 then x # y # ys else y # insertBy cmp x ys)"

definition sortBy :: "('a \<Rightarrow> 'a \<Rightarrow> rat) \<Rightarrow> 'a list \<Rightarrow> 'a list" where
  "sortBy cmp xs = foldr (insertBy cmp) xs []"

text \<open>\<^verbatim>\<open>Math.min(...xs)\<close> on a non-empty array.\<close>

fun minOf :: "rat list \<Rightarrow> rat" where
  "minOf [] = 0"
| "minOf (x # xs) = foldl min x xs"

subsection \<open>Loading and filtering\<close>

text \<open>The body of the \<^verbatim>\<open>try\<close> block of \<^verbatim>\<open>loadStepsFromFile\<close>: it compares
  strings and returns a catalog that is already bound, or the empty array.\<close>

definition loadCatalog :: "runtime \<Rightarrow> string \<Rightarrow> error + UpgradeStep list" where
  "loadCatalog rt frameworkKey =
     (if frameworkKey = ''nextjs'' then Inr (nextjsSteps rt)
      else if frameworkKey = ''angular'' then Inr (angularSteps rt)
      else Inr [])"

definition frameworkKeyOf :: "string \<Rightarrow> string" where
  "frameworkKeyOf framework = replaceFirst (matchLiteral ''.'') [] (toLowerCase framework)"

definition loadStepsFromFile :: "runtime \<Rightarrow> string \<Rightarrow> error + UpgradeStep list" where
  "loadStepsFromFile rt framework =
     (let frameworkKey = frameworkKeyOf framework
      in case loadCatalog rt frameworkKey of
           Inr steps \<Rightarrow> Inr steps
         | Inl e \<Rightarrow> Inr [])"

definition relevantSteps :: "UpgradeStep list \<Rightarrow> rat \<Rightarrow> rat \<Rightarrow> UpgradeStep list" where
  "relevantSteps allSteps fromVersion toVersion =
     filter (\<lambda>step. fromV step \<ge> fromVersion \<and> toV step \<le> toVersion) allSteps"

subsection \<open>Consolidation by type\<close>

definition shouldConsolidate :: "string \<Rightarrow> bool" where
  "shouldConsolidate t = (t \<in> set [''package-update'', ''dependencies'', ''configuration''])"

definition toPhrase :: matcher where
  "toPhrase = matchPrefixed False ''to ''"

definition versionPhrase :: matcher where
  "versionPhrase = matchPrefixed False ''version ''"

definition caretVersion :: matcher where
  "caretVersion = matchPrefixed False ''@^''"

definition consolidatePackageUpdates ::
  "runtime \<Rightarrow> UpgradeStep list \<Rightarrow> rat \<Rightarrow> UpgradeStep option" where
  "consolidatePackageUpdates rt packageSteps targetVersion =
     (case packageSteps of
        [] \<Rightarrow> None
      | firstStep # _ \<Rightarrow>
          (let minVersion = minOf (map fromV packageSteps);
               target = numberToString rt targetVersion;
               baseInstruction =
                 replaceFirst matchVersion [] (replaceFirst toPhrase [] (instruction firstStep));
               consolidatedInstruction = trim baseInstruction @ '' to '' @ target;
               updatedDetailedDescription =
                 replaceAll toPhrase (''to '' @ target)
                   (replaceAll versionPhrase (''version '' @ target)
                      (replaceAll caretVersion (''@^'' @ target)
                         (detailedDescription firstStep)))
           in Some \<lparr>instruction = consolidatedInstruction,
                     detailedDescription = updatedDetailedDescription,
                     fromV = minVersion,
                     toV = targetVersion,
                     stepType = stepType firstStep,
                     affectedFile = None\<rparr>))"

definition hashInstruction :: "runtime \<Rightarrow> string \<Rightarrow> string" where
  "hashInstruction rt instr = md5hex rt (toLowerCase (trim instr))"

fun dedupLoop :: "runtime \<Rightarrow> string set \<Rightarrow> UpgradeStep list \<Rightarrow> UpgradeStep list" where
  "dedupLoop rt seenInstructions [] = []"
| "dedupLoop rt seenInstructions (step # steps) =
     (let hash = hashInstruction rt (instruction step)
      in if hash \<in> seenInstructions then dedupLoop rt seenInstructions steps
         else step # dedupLoop rt (insert hash seenInstructions) steps)"

definition removeDuplicateInstructions :: "runtime \<Rightarrow> UpgradeStep list \<Rightarrow> UpgradeStep list" where
  "removeDuplicateInstructions rt steps = dedupLoop rt {} steps"

type_synonym grouping = "(string \<times> UpgradeStep list) list \<times> UpgradeStep list"

text \<open>The first loop of \<^verbatim>\<open>consolidateByType\<close>: the map \<^verbatim>\<open>stepsByType\<close> and the array
  \<^verbatim>\<open>nonConsolidatedSteps\<close>.\<close>

definition groupByType :: "grouping \<Rightarrow> UpgradeStep \<Rightarrow> grouping" where
  "groupByType g step =
     (case g of (stepsByType, nonConsolidatedSteps) \<Rightarrow>
        (case stepType step of
           Some t \<Rightarrow>
             if t \<noteq> [] \<and> shouldConsolidate t
             then (groupPush t step stepsByType, nonConsolidatedSteps)
             else (stepsByType, nonConsolidatedSteps @ [step])
         | None \<Rightarrow> (stepsByType, nonConsolidatedSteps @ [step])))"

text \<open>The body of its second loop: what one type's group adds to \<^verbatim>\<open>consolidatedSteps\<close>.\<close>

definition consolidateTypeGroup ::
  "runtime \<Rightarrow> rat \<Rightarrow> string \<times> UpgradeStep list \<Rightarrow> UpgradeStep list" where
  "consolidateTypeGroup rt targetVersion g =
     (case g of (t, typeSteps) \<Rightarrow>
        if t = ''package-update''
        then (case consolidatePackageUpdates rt typeSteps targetVersion of
                Some consolidated \<Rightarrow> [consolidated]
              | None \<Rightarrow> [])
        else removeDuplicateInstructions rt typeSteps)"

definition consolidateByType :: "runtime \<Rightarrow> UpgradeStep list \<Rightarrow> rat \<Rightarrow> UpgradeStep list" where
  "consolidateByType rt steps targetVersion =
     (case foldl groupByType ([], []) steps of
        (stepsByType, nonConsolidatedSteps) \<Rightarrow>
          concat (map (consolidateTypeGroup rt targetVersion) stepsByType)
            @ nonConsolidatedSteps)"

subsection \<open>Consolidation by affected file\<close>

text \<open>The base instruction \<^verbatim>\<open>getUniqueInstructions\<close> derives from one instruction.\<close>

definition baseInstructionOf :: "string \<Rightarrow> string" where
  "baseInstructionOf instr =
     trim (replaceAll matchVersion []
             (replaceAll (matchPrefixed True ''version '') []
                (replaceAll (matchPrefixed True ''to '') [] instr)))"

definition getUniqueInstructions :: "UpgradeStep list \<Rightarrow> string list" where
  "getUniqueInstructions steps =
     foldl (\<lambda>instructions step.
              let baseInstruction = baseInstructionOf (instruction step)
              in if baseInstruction \<noteq> [] then setAdd baseInstruction instructions
                 else instructions)
       [] steps"

definition createConsolidatedInstruction :: "string list \<Rightarrow> string \<Rightarrow> string" where
  "createConsolidatedInstruction instructions fileName =
     (if length instructions = 1 then ''Update '' @ fileName @ '' configuration''
      else ''Update '' @ fileName @ '' with multiple configuration changes'')"

type_synonym sections = "(string \<times> string list) list"

text \<open>Saving a section: \<^verbatim>\<open>if (currentContent.size > 0) { if (!sections.has(s))
  sections.set(s, new Set()); currentContent.forEach(c => sections.get(s).add(c)) }\<close>.\<close>

definition saveSection :: "string \<Rightarrow> string list \<Rightarrow> sections \<Rightarrow> sections" where
  "saveSection currentSection currentContent secs =
     (if 0 < length currentContent then
        map (\<lambda>(name, content).
               if name = currentSection
               then (name, foldl (\<lambda>acc line. setAdd line acc) content currentContent)
               else (name, content))
          (if currentSection \<in> set (map fst secs) then secs else secs @ [(currentSection, [])])
      else secs)"

definition isSectionHeader :: "string \<Rightarrow> bool" where
  "isSectionHeader trimmedLine =
     (matchesAnchored matchNumberedBold trimmedLine
      \<or> (startsWith trimmedLine ''**'' \<and> endsWith trimmedLine ''**''))"

definition sectionNameOf :: "string \<Rightarrow> string" where
  "sectionNameOf trimmedLine =
     toLowerCase (replaceAll (matchLiteral ''**'') []
                    (replaceAnchored matchNumberDotSpaces [] trimmedLine))"

text \<open>One line of a description: the state is \<^verbatim>\<open>sections\<close>, \<^verbatim>\<open>currentSection\<close> and
  \<^verbatim>\<open>currentContent\<close>.\<close>

definition scanLine ::
  "sections \<times> string \<times> string list \<Rightarrow> string \<Rightarrow> sections \<times> string \<times> string list" where
  "scanLine st line =
     (case st of (secs, currentSection, currentContent) \<Rightarrow>
        (let trimmedLine = trim line
         in if isSectionHeader trimmedLine
            then (saveSection currentSection currentContent secs, sectionNameOf trimmedLine, [])
            else if 0 < length trimmedLine
            then (secs, currentSection, setAdd trimmedLine currentContent)
            else (secs, currentSection, currentContent)))"

definition scanStep :: "sections \<Rightarrow> UpgradeStep \<Rightarrow> sections" where
  "scanStep secs step =
     (case foldl scanLine (secs, ''general'', []) (splitLines (detailedDescription step)) of
        (secs', currentSection, currentContent) \<Rightarrow>
          saveSection currentSection currentContent secs')"

text \<open>Rebuilding: the state is \<^verbatim>\<open>consolidatedSections\<close> and \<^verbatim>\<open>sectionIndex\<close>.\<close>

definition emitSection :: "string list \<times> nat \<Rightarrow> string \<times> string list \<Rightarrow> string list \<times> nat" where
  "emitSection st sec =
     (case (st, sec) of ((out, sectionIndex), (sectionName, content)) \<Rightarrow>
        (let headed =
               (if sectionName \<noteq> ''general''
                then (out @ [natToString sectionIndex @ ''. **'' @ sectionName @ ''**:''],
                      sectionIndex + 1)
                else (out, sectionIndex));
             kept = filter (\<lambda>line. \<not> startsWith line ''```''
                                  \<and> \<not> matchesAnchored matchNumberDot line) content
         in (fst headed @ kept @ [''''], snd headed)))"

definition mergeDetailedDescriptions :: "UpgradeStep list \<Rightarrow> string" where
  "mergeDetailedDescriptions steps =
     trim (joinLines (fst (foldl emitSection ([], 1) (foldl scanStep [] steps))))"

text \<open>The members an object literal inherits from \<^verbatim>\<open>Object.prototype\<close>: eleven
  functions and the accessor \<^verbatim>\<open>__proto__\<close>, whose value is an object.\<close>

definition objectPrototypeKeys :: "string list" where
  "objectPrototypeKeys =
     [''constructor'', ''hasOwnProperty'', ''isPrototypeOf'', ''propertyIsEnumerable'',
      ''toLocaleString'', ''toString'', ''valueOf'', ''__defineGetter__'',
      ''__defineSetter__'', ''__lookupGetter__'', ''__lookupSetter__'', ''__proto__'']"

text \<open>What \<^verbatim>\<open>table[key]\<close> finds: nothing, an entry of the literal, or an inherited member.\<close>

datatype property = Undefined | Numeric nat | Inherited

text \<open>The table \<^verbatim>\<open>typePriority\<close>, the same literal as \<^verbatim>\<open>priorities\<close> below.\<close>

definition priorities :: "string \<Rightarrow> property" where
  "priorities key =
     (case map_of
        [(''package-update'', 1), (''dependencies'', 2), (''configuration'', 3),
         (''code-update'', 4), (''testing'', 5), (''deployment'', 6)] key of
        Some p \<Rightarrow> Numeric p
      | None \<Rightarrow> if key \<in> set objectPrototypeKeys then Inherited else Undefined)"

text \<open>\<^verbatim>\<open>table[key] || 10\<close>: 10 for \<^verbatim>\<open>undefined\<close> (no entry of the table is zero);
  an inherited member is truthy and stays, \<open>None\<close> here: a value that is no number and
  that arithmetic and comparison turn into \<^verbatim>\<open>NaN\<close>.\<close>

definition orTen :: "property \<Rightarrow> nat option" where
  "orTen v =
     (case v of
        Undefined \<Rightarrow> Some 10
      | Numeric p \<Rightarrow> Some (if p = 0 then 10 else p)
      | Inherited \<Rightarrow> None)"

text \<open>The state is \<^verbatim>\<open>mostImportantType\<close> and \<^verbatim>\<open>highestPriority\<close>, \<open>None\<close> for
  \<^verbatim>\<open>Infinity\<close>. A priority that is no number compares false.\<close>

definition moreImportant :: "string \<times> nat option \<Rightarrow> UpgradeStep \<Rightarrow> string \<times> nat option" where
  "moreImportant st step =
     (case st of (mostImportantType, highestPriority) \<Rightarrow>
        (case stepType step of
           None \<Rightarrow> st
         | Some t \<Rightarrow>
             if t = [] then st
             else (case orTen (priorities t) of
                     None \<Rightarrow> st
                   | Some priority \<Rightarrow>
                       if (case highestPriority of None \<Rightarrow> True | Some h \<Rightarrow> priority < h)
                       then (t, Some priority) else st)))"

definition getMostImportantStepType :: "UpgradeStep list \<Rightarrow> string" where
  "getMostImportantStepType steps =
     (let mostImportantType = fst (foldl moreImportant ([], None) steps)
      in if mostImportantType \<noteq> [] then mostImportantType else ''configuration'')"

definition consolidateFileSteps :: "UpgradeStep list \<Rightarrow> string \<Rightarrow> UpgradeStep option" where
  "consolidateFileSteps fileSteps fileName =
     (if length fileSteps = 0 then None
      else
        (let sortedSteps = sortBy (\<lambda>a b. fromV a - fromV b) fileSteps;
             firstStep = sortedSteps ! 0;
             lastStep = sortedSteps ! (length sortedSteps - 1);
             uniqueInstructions = getUniqueInstructions sortedSteps;
             consolidatedInstruction = createConsolidatedInstruction uniqueInstructions fileName;
             consolidatedDescription = mergeDetailedDescriptions sortedSteps
         in Some \<lparr>instruction = consolidatedInstruction,
                   detailedDescription = consolidatedDescription,
                   fromV = fromV firstStep,
                   toV = toV lastStep,
                   stepType = Some (getMostImportantStepType sortedSteps),
                   affectedFile = Some fileName\<rparr>))"

text \<open>The first loop of \<^verbatim>\<open>consolidateByAffectedFile\<close>: the map \<^verbatim>\<open>stepsByFile\<close> and the
  array \<^verbatim>\<open>stepsWithoutFiles\<close>.\<close>

definition groupByFile :: "grouping \<Rightarrow> UpgradeStep \<Rightarrow> grouping" where
  "groupByFile g step =
     (case g of (stepsByFile, stepsWithoutFiles) \<Rightarrow>
        (case affectedFile step of
           Some f \<Rightarrow>
             if f \<noteq> [] then (groupPush f step stepsByFile, stepsWithoutFiles)
             else (stepsByFile, stepsWithoutFiles @ [step])
         | None \<Rightarrow> (stepsByFile, stepsWithoutFiles @ [step])))"

text \<open>The body of its second loop.\<close>

definition consolidateFileGroup :: "string \<times> UpgradeStep list \<Rightarrow> UpgradeStep list" where
  "consolidateFileGroup g =
     (case g of (fileName, fileSteps) \<Rightarrow>
        if length fileSteps = 1 then [fileSteps ! 0]
        else (case consolidateFileSteps fileSteps fileName of
                Some consolidated \<Rightarrow> [consolidated]
              | None \<Rightarrow> []))"

definition consolidateByAffectedFile :: "UpgradeStep list \<Rightarrow> UpgradeStep list" where
  "consolidateByAffectedFile steps =
     (case foldl groupByFile ([], []) steps of
        (stepsByFile, stepsWithoutFiles) \<Rightarrow>
          concat (map consolidateFileGroup stepsByFile) @ stepsWithoutFiles)"

subsection \<open>The pipeline\<close>

definition consolidateSimilarSteps :: "runtime \<Rightarrow> UpgradeStep list \<Rightarrow> rat \<Rightarrow> UpgradeStep list" where
  "consolidateSimilarSteps rt steps targetVersion =
     (let typeConsolidatedSteps = consolidateByType rt steps targetVersion;
          fileConsolidatedSteps = consolidateByAffectedFile typeConsolidatedSteps
      in fileConsolidatedSteps)"

definition getStepTypePriority :: "string option \<Rightarrow> nat option" where
  "getStepTypePriority t =
     orTen (priorities (case t of None \<Rightarrow> ''default''
                        | Some s \<Rightarrow> if s = [] then ''default'' else s))"

text \<open>The comparator of the final sort. A difference with an operand that is no number is
  \<^verbatim>\<open>NaN\<close>, which is not \<open>0\<close>, and is returned.\<close>

definition compareSteps :: "UpgradeStep \<Rightarrow> UpgradeStep \<Rightarrow> rat option" where
  "compareSteps a b =
     (case (getStepTypePriority (stepType a), getStepTypePriority (stepType b)) of
        (Some pa, Some pb) \<Rightarrow>
          (let typePriority = rat_of_nat pa - rat_of_nat pb
           in if typePriority \<noteq> 0 then Some typePriority
              else if fromV a \<noteq> fromV b then Some (fromV a - fromV b)
              else Some (toV a - toV b))
      | _ \<Rightarrow> None)"

definition getUpgradeSteps ::
  "runtime \<Rightarrow> string \<Rightarrow> rat \<Rightarrow> rat \<Rightarrow> error + UpgradeStep list" where
  "getUpgradeSteps rt framework fromVersion toVersion =
     (case loadStepsFromFile rt framework of
        Inl e \<Rightarrow> Inl e
      | Inr allSteps \<Rightarrow>
          (let relevant = relevantSteps allSteps fromVersion toVersion;
               consolidatedSteps = consolidateSimilarSteps rt relevant toVersion
           in Inr (sortBy (\<lambda>a b. sortCompare (compareSteps a b)) consolidatedSteps)))"

definition hasUpgradePath :: "runtime \<Rightarrow> string \<Rightarrow> rat \<Rightarrow> rat \<Rightarrow> error + bool" where
  "hasUpgradePath rt framework fromVersion toVersion =
     (case getUpgradeSteps rt framework fromVersion toVersion of
        Inl e \<Rightarrow> Inl e
      | Inr steps \<Rightarrow> Inr (0 < length steps))"

section \<open>Notions of the specification\<close>

text \<open>The framework key as the specification describes the matching: lower case, every
  punctuation character ignored (the source removes the first dot only).\<close>

definition isPunctuation :: "char \<Rightarrow> bool" where
  "isPunctuation c =
     (let n = (of_char c :: nat)
      in (33 \<le> n \<and> n \<le> 47) \<or> (58 \<le> n \<and> n \<le> 64) \<or> (91 \<le> n \<and> n \<le> 96)
         \<or> (123 \<le> n \<and> n \<le> 126))"

definition specFrameworkKey :: "string \<Rightarrow> string" where
  "specFrameworkKey framework = filter (\<lambda>c. \<not> isPunctuation c) (toLowerCase framework)"

text \<open>Every step of the bundled catalogs.\<close>

definition catalogSteps :: "runtime \<Rightarrow> UpgradeStep set" where
  "catalogSteps rt = set (nextjsSteps rt) \<union> set (angularSteps rt)"

text \<open>The keys of a list in the order of their first occurrence, and the groups a \<^verbatim>\<open>Map\<close>
  of arrays holds after every element was pushed under its key.\<close>

definition firstSeen :: "'k list \<Rightarrow> 'k list" where
  "firstSeen ks = rev (remdups (rev ks))"

definition groupsOf :: "('a \<Rightarrow> 'k) \<Rightarrow> 'a list \<Rightarrow> ('k \<times> 'a list) list" where
  "groupsOf key xs = map (\<lambda>k. (k, filter (\<lambda>x. key x = k) xs)) (firstSeen (map key xs))"

text \<open>The sort key of the final ordering, compared lexicographically, for a step whose
  type has a priority that is a number.\<close>

definition numericPriority :: "UpgradeStep \<Rightarrow> bool" where
  "numericPriority s = (getStepTypePriority (stepType s) \<noteq> None)"

definition sortKey :: "UpgradeStep \<Rightarrow> nat \<times> rat \<times> rat" where
  "sortKey s =
     (case getStepTypePriority (stepType s) of None \<Rightarrow> 0 | Some p \<Rightarrow> p, fromV s, toV s)"

text \<open>The instruction as the duplicate removal compares it.\<close>

definition normalized :: "UpgradeStep \<Rightarrow> string" where
  "normalized s = toLowerCase (trim (instruction s))"

text \<open>The steps the first loop of \<^verbatim>\<open>consolidateByType\<close> puts into the map, and the key
  it files them under; likewise for \<^verbatim>\<open>consolidateByAffectedFile\<close>.\<close>

definition consolidatable :: "UpgradeStep \<Rightarrow> bool" where
  "consolidatable s = (case stepType s of None \<Rightarrow> False | Some t \<Rightarrow> t \<noteq> [] \<and> shouldConsolidate t)"

definition typeOf :: "UpgradeStep \<Rightarrow> string" where
  "typeOf s = (case stepType s of None \<Rightarrow> [] | Some t \<Rightarrow> t)"

definition hasFile :: "UpgradeStep \<Rightarrow> bool" where
  "hasFile s = truthy (affectedFile s)"

definition fileOf :: "UpgradeStep \<Rightarrow> string" where
  "fileOf s = (case affectedFile s of None \<Rightarrow> [] | Some f \<Rightarrow> f)"

definition isPackageUpdate :: "UpgradeStep \<Rightarrow> bool" where
  "isPackageUpdate s = (stepType s = Some ''package-update'')"

text \<open>The affected files of a list of steps, in the order of their first occurrence.\<close>

definition fileNames :: "UpgradeStep list \<Rightarrow> string list" where
  "fileNames steps = firstSeen (map fileOf (filter hasFile steps))"

text \<open>The number of matches a replacement with the flag \<^verbatim>\<open>g\<close> finds in a string, by the
  same scan as \<open>replaceFrom\<close>.\<close>

fun countFrom :: "matcher \<Rightarrow> nat \<Rightarrow> string \<Rightarrow> nat" where
  "countFrom m k [] = 0"
| "countFrom m (Suc k) (c # cs) = countFrom m k cs"
| "countFrom m 0 (c # cs) =
     (case m (c # cs) of
        Some (Suc n) \<Rightarrow> Suc (countFrom m n cs)
      | _ \<Rightarrow> countFrom m 0 cs)"

definition countMatches :: "matcher \<Rightarrow> string \<Rightarrow> nat" where
  "countMatches m s = countFrom m 0 s"

text \<open>The rewritten description as the specification words it: beside the three prefixed
  forms, every version token is replaced by the target version.\<close>

definition specDescription :: "string \<Rightarrow> string \<Rightarrow> string" where
  "specDescription target d =
     replaceAll matchVersion target
       (replaceAll toPhrase (''to '' @ target)
          (replaceAll versionPhrase (''version '' @ target)
             (replaceAll caretVersion (''@^'' @ target) d)))"

section \<open>Examples\<close>

text \<open>A runtime for the examples: the identity in place of the digest (it has no
  collisions), the decimal numeral for a version that is a natural number, as the engine
  prints it, and empty catalogs.\<close>

definition exampleRuntime :: runtime where
  "exampleRuntime =
     \<lparr>md5hex = (\<lambda>s. s), numberToString = (\<lambda>v. natToString (nat \<lfloor>v\<rfloor>)),
      nextjsSteps = [], angularSteps = []\<rparr>"

definition mkStep ::
  "string \<Rightarrow> string \<Rightarrow> rat \<Rightarrow> rat \<Rightarrow> string option \<Rightarrow> string option \<Rightarrow> UpgradeStep" where
  "mkStep i d f t ty file =
     \<lparr>instruction = i, detailedDescription = d, fromV = f, toV = t,
      stepType = ty, affectedFile = file\<rparr>"

text \<open>A catalog whose last step sorts first, with an unknown and an absent type that
  share a sort key.\<close>

definition orderingExample :: runtime where
  "orderingExample = exampleRuntime\<lparr>nextjsSteps :=
     [mkStep ''Run tests'' [] 1 2 (Some ''testing'') None,
      mkStep ''Read notes'' [] 1 2 (Some ''notes'') None,
      mkStep ''Plan'' [] 1 2 None None,
      mkStep ''Update packages to 2.0'' [] 1 2 (Some ''package-update'') None]\<rparr>"

text \<open>A catalog whose first step has a type that names a member of \<^verbatim>\<open>Object.prototype\<close>.\<close>

definition inheritedTypeExample :: runtime where
  "inheritedTypeExample = exampleRuntime\<lparr>nextjsSteps :=
     [mkStep ''Review the custom serializers'' [] 1 2 (Some ''toString'') None,
      mkStep ''Run tests'' [] 1 2 (Some ''testing'') None]\<rparr>"

text \<open>Three package updates across consecutive versions among other steps, and a group
  with a duplicate instruction.\<close>

definition packageExample :: "UpgradeStep list" where
  "packageExample =
     [mkStep ''Update packages to 2.0'' ''Install the packages of version 2.0'' 1 2
        (Some ''package-update'') None,
      mkStep ''Update packages to 3.0'' ''Install the packages of version 3.0'' 2 3
        (Some ''package-update'') (Some ''package.json''),
      mkStep ''Run tests'' [] 1 4 (Some ''testing'') None,
      mkStep ''Update packages to 4.0'' ''Install the packages of version 4.0'' 3 4
        (Some ''package-update'') None]"

definition duplicateExample :: "UpgradeStep list" where
  "duplicateExample =
     [mkStep ''Add redirects config'' ''first'' 1 2 (Some ''configuration'') None,
      mkStep ''Enable strict mode'' [] 1 2 (Some ''configuration'') None,
      mkStep ''  add REDIRECTS config '' ''second'' 2 3 (Some ''configuration'') None]"

text \<open>Steps on two files and one without a file, and a catalog holding them after the
  package updates.\<close>

definition fileExample :: "UpgradeStep list" where
  "fileExample =
     [mkStep ''Add redirects config'' ''1. **Redirects**\<newline>Add the redirects'' 2 3
        (Some ''configuration'') (Some ''next.config.js''),
      mkStep ''Plan the upgrade'' [] 1 2 None None,
      mkStep ''Add rewrites config'' ''1. **Rewrites**\<newline>Add the rewrites'' 1 2
        (Some ''code-update'') (Some ''next.config.js''),
      mkStep ''Update tsconfig'' [] 1 3 (Some ''configuration'') (Some ''tsconfig.json'')]"

definition invariantExample :: runtime where
  "invariantExample = exampleRuntime\<lparr>nextjsSteps := packageExample @ fileExample\<rparr>"

text \<open>File groups of two steps: with the same instruction, with different instructions,
  and with an instruction that is a version token only.\<close>

definition versionOnlyExample :: "UpgradeStep list" where
  "versionOnlyExample =
     [mkStep ''22.0'' ''Notes for 22.0'' 1 2 (Some ''code-update'') (Some ''next.config.js''),
      mkStep ''22.0'' ''More notes'' 2 3 (Some ''code-update'') (Some ''next.config.js'')]"

definition sameInstructionExample :: "UpgradeStep list" where
  "sameInstructionExample =
     [mkStep ''Add redirects config'' ''For 22.0'' 1 2 (Some ''code-update'')
        (Some ''next.config.js''),
      mkStep ''Add redirects config'' ''For 22.1'' 2 3 (Some ''code-update'')
        (Some ''next.config.js'')]"

definition mixedInstructionExample :: "UpgradeStep list" where
  "mixedInstructionExample =
     [mkStep ''Add redirects config'' [] 1 2 (Some ''code-update'') (Some ''next.config.js''),
      mkStep ''Add rewrites config'' [] 2 3 (Some ''code-update'') (Some ''next.config.js'')]"

text \<open>Package updates whose texts hold version tokens in several forms.\<close>

definition bareTokenExample :: "UpgradeStep list" where
  "bareTokenExample =
     [mkStep ''Update packages to 13.0''
        ''Install next@^13.0.0 for version 13.0 and read the React 18.2.0 notes'' 12 13
        (Some ''package-update'') None]"

definition rewriteExample :: "UpgradeStep list" where
  "rewriteExample =
     [mkStep ''Update packages to 13.0''
        ''Install next@^13.0.0 for version 13.0 and move to 13.0'' 12 13
        (Some ''package-update'') None,
      mkStep ''Update packages to 14.0'' ''Install next@^14.0.0'' 13 14
        (Some ''package-update'') None]"

definition plainDescriptionExample :: "UpgradeStep list" where
  "plainDescriptionExample =
     [mkStep ''Update packages'' ''Read the React 18.2.0 notes'' 12 13
        (Some ''package-update'') None]"

section \<open>Properties\<close>

subsection \<open>Empty inputs and loading\<close>

lemma sortBy_Nil [simp]: "sortBy cmp [] = []"
  by (simp add: sortBy_def)

lemma consolidateByType_Nil [simp]: "consolidateByType rt [] tv = []"
  by (simp add: consolidateByType_def)

lemma consolidateByAffectedFile_Nil [simp]: "consolidateByAffectedFile [] = []"
  by (simp add: consolidateByAffectedFile_def)

lemma consolidateSimilarSteps_Nil [simp]: "consolidateSimilarSteps rt [] tv = []"
  by (simp add: consolidateSimilarSteps_def)

lemma relevantSteps_Nil [simp]: "relevantSteps [] a b = []"
  by (simp add: relevantSteps_def)

lemma loadStepsFromFile_total: "\<exists>steps. loadStepsFromFile rt framework = Inr steps"
  by (simp add: loadStepsFromFile_def split: sum.splits)

lemma loadStepsFromFile_catalog:
  "loadStepsFromFile rt framework = Inr steps \<Longrightarrow> set steps \<subseteq> catalogSteps rt"
  by (auto simp: loadStepsFromFile_def loadCatalog_def catalogSteps_def Let_def
      split: sum.splits if_splits)

lemma filter_replaceFirst_dot:
  "filter (\<lambda>c. \<not> isPunctuation c) (replaceFirst (matchLiteral ''.'') [] s)
   = filter (\<lambda>c. \<not> isPunctuation c) s"
proof (induction s)
  case Nil
  show ?case by simp
next
  case (Cons c s)
  have dot: "isPunctuation (CHR ''.'')" by code_simp
  show ?case
  proof (cases "c = CHR ''.''")
    case True
    with dot show ?thesis by (simp add: matchLiteral_def)
  next
    case False
    with Cons show ?thesis by (simp add: matchLiteral_def)
  qed
qed

lemma specFrameworkKey_of_key:
  "specFrameworkKey framework = filter (\<lambda>c. \<not> isPunctuation c) (frameworkKeyOf framework)"
  by (simp add: specFrameworkKey_def frameworkKeyOf_def filter_replaceFirst_dot)

lemma nextjs_plain: "filter (\<lambda>c. \<not> isPunctuation c) ''nextjs'' = ''nextjs''"
  by code_simp

lemma angular_plain: "filter (\<lambda>c. \<not> isPunctuation c) ''angular'' = ''angular''"
  by code_simp

lemma unsupported_key:
  assumes "specFrameworkKey framework \<notin> {''nextjs'', ''angular''}"
  shows "frameworkKeyOf framework \<noteq> ''nextjs'' \<and> frameworkKeyOf framework \<noteq> ''angular''"
  using assms nextjs_plain angular_plain
  by (auto simp: specFrameworkKey_of_key)

text \<open>
  C1. The range filter returns exactly the catalog steps that lie inside the requested
  window, \<open>fromVersion \<le> from\<close> and \<open>to \<le> toVersion\<close>, in catalog order: it is a
  subsequence of the catalog, every step it returns is contained in the window, and every
  contained step is returned. Overlapping the window is not enough.
\<close>

theorem range_filter_contained:
  "relevantSteps allSteps fromVersion toVersion
     = filter (\<lambda>s. fromVersion \<le> fromV s \<and> toV s \<le> toVersion) allSteps
   \<and> subseq (relevantSteps allSteps fromVersion toVersion) allSteps
   \<and> (\<forall>s \<in> set (relevantSteps allSteps fromVersion toVersion).
         fromVersion \<le> fromV s \<and> toV s \<le> toVersion)
   \<and> (\<forall>s \<in> set allSteps.
         fromVersion \<le> fromV s \<and> toV s \<le> toVersion
           \<longrightarrow> s \<in> set (relevantSteps allSteps fromVersion toVersion))"
  by (simp add: relevantSteps_def)

text \<open>In the window from 1 to 3 the step from 1 to 2 is kept; the step from 2 to 4
  overlaps the window and is dropped, as is the step from 0 to 1.\<close>

theorem range_filter_contained_witness:
  "relevantSteps
     [mkStep ''a'' [] 1 2 None None, mkStep ''b'' [] 2 4 None None,
      mkStep ''c'' [] 0 1 None None] 1 3
     = [mkStep ''a'' [] 1 2 None None]
   \<and> mkStep ''a'' [] 1 2 None None
       \<in> set (relevantSteps
            [mkStep ''a'' [] 1 2 None None, mkStep ''b'' [] 2 4 None None,
             mkStep ''c'' [] 0 1 None None] 1 3)
   \<and> 1 \<le> fromV (mkStep ''a'' [] 1 2 None None)
   \<and> toV (mkStep ''a'' [] 1 2 None None) \<le> 3"
  using range_filter_contained
    [of "[mkStep ''a'' [] 1 2 None None, mkStep ''b'' [] 2 4 None None,
          mkStep ''c'' [] 0 1 None None]" 1 3]
  by (simp add: mkStep_def)

text \<open>An identifier that matches no supported key, even with case and punctuation
  ignored, makes the pipeline resolve to the empty sequence and \<open>hasUpgradePath\<close> to
  false, whatever the catalogs hold.\<close>

lemma unknown_framework_resolves_empty:
  assumes "specFrameworkKey framework \<notin> {''nextjs'', ''angular''}"
  shows "getUpgradeSteps rt framework fromVersion toVersion = Inr []
         \<and> hasUpgradePath rt framework fromVersion toVersion = Inr False"
proof -
  have "loadStepsFromFile rt framework = Inr []"
    using unsupported_key [OF assms]
    by (simp add: loadStepsFromFile_def loadCatalog_def Let_def)
  then show ?thesis
    by (simp add: getUpgradeSteps_def hasUpgradePath_def)
qed

lemma unknown_framework_example:
  "getUpgradeSteps invariantExample ''Next.JS'' 1 4 \<noteq> Inr []
   \<and> getUpgradeSteps invariantExample ''Vue.JS'' 1 4 = Inr []
   \<and> hasUpgradePath invariantExample ''Vue.JS'' 1 4 = Inr False"
proof -
  have a: "specFrameworkKey ''Vue.JS'' \<notin> {''nextjs'', ''angular''}" by code_simp
  have b: "getUpgradeSteps invariantExample ''Next.JS'' 1 4 \<noteq> Inr []" by code_simp
  show ?thesis
    using b unknown_framework_resolves_empty [OF a, of invariantExample 1 4] by simp
qed


text \<open>
  C9. When every catalog step has \<open>from \<le> to\<close> and the request has
  \<open>toVersion < fromVersion\<close>, the pipeline resolves to the empty sequence.
\<close>

theorem reversed_window_empty:
  assumes "\<forall>s \<in> catalogSteps rt. fromV s \<le> toV s"
    and "toVersion < fromVersion"
  shows "getUpgradeSteps rt framework fromVersion toVersion = Inr []"
proof -
  obtain allSteps where load: "loadStepsFromFile rt framework = Inr allSteps"
    using loadStepsFromFile_total by blast
  have "relevantSteps allSteps fromVersion toVersion = []"
    unfolding relevantSteps_def filter_empty_conv
  proof
    fix s assume "s \<in> set allSteps"
    then have "fromV s \<le> toV s"
      using assms(1) loadStepsFromFile_catalog [OF load] by blast
    with assms(2) show "\<not> (fromVersion \<le> fromV s \<and> toV s \<le> toVersion)"
      by linarith
  qed
  with load show ?thesis
    by (simp add: getUpgradeSteps_def)
qed

text \<open>A catalog whose one step runs from 1 to 2, asked for the window from 2 down to 1.\<close>

theorem reversed_window_empty_witness:
  "catalogSteps (exampleRuntime\<lparr>nextjsSteps := [mkStep ''a'' [] 1 2 None None]\<rparr>)
     = {mkStep ''a'' [] 1 2 None None}
   \<and> fromV (mkStep ''a'' [] 1 2 None None) \<le> toV (mkStep ''a'' [] 1 2 None None)
   \<and> (1::rat) < 2
   \<and> getUpgradeSteps (exampleRuntime\<lparr>nextjsSteps := [mkStep ''a'' [] 1 2 None None]\<rparr>)
        ''Next.JS'' 2 1 = Inr []"
proof -
  have cat: "catalogSteps (exampleRuntime\<lparr>nextjsSteps := [mkStep ''a'' [] 1 2 None None]\<rparr>)
     = {mkStep ''a'' [] 1 2 None None}"
    by (simp add: catalogSteps_def exampleRuntime_def)
  have le: "fromV (mkStep ''a'' [] 1 2 None None) \<le> toV (mkStep ''a'' [] 1 2 None None)"
    by (simp add: mkStep_def)
  have inv: "\<forall>s \<in> catalogSteps
                (exampleRuntime\<lparr>nextjsSteps := [mkStep ''a'' [] 1 2 None None]\<rparr>).
      fromV s \<le> toV s"
    using cat le by simp
  have lt: "(1::rat) < 2" by simp
  show ?thesis
    using cat le lt reversed_window_empty [OF inv lt, of "''Next.JS''"] by simp
qed

subsection \<open>Sorting\<close>

lemma set_insertBy [simp]: "set (insertBy cmp x ys) = insert x (set ys)"
  by (induction ys) auto

lemma set_sortBy [simp]: "set (sortBy cmp xs) = set xs"
  by (induction xs) (simp_all add: sortBy_def)

lemma insertBy_insort_key:
  assumes "\<And>y. y \<in> set ys \<Longrightarrow> cmp x y \<le> 0 \<longleftrightarrow> key x \<le> key y"
  shows "insertBy cmp x ys = insort_key key x ys"
  using assms by (induction ys) simp_all

lemma sortBy_sort_key:
  assumes "\<And>x y. x \<in> set xs \<Longrightarrow> y \<in> set xs \<Longrightarrow> cmp x y \<le> 0 \<longleftrightarrow> key x \<le> key y"
  shows "sortBy cmp xs = sort_key key xs"
  using assms
proof (induction xs)
  case Nil
  show ?case by (simp add: sortBy_def)
next
  case (Cons x xs)
  have "sortBy cmp xs = sort_key key xs"
    using Cons by simp
  moreover have "insertBy cmp x (sort_key key xs) = insort_key key x (sort_key key xs)"
    by (rule insertBy_insort_key) (simp add: Cons.prems)
  ultimately show ?case
    by (simp add: sortBy_def)
qed

lemma sortBy_fromV: "sortBy (\<lambda>a b. fromV a - fromV b) xs = sort_key fromV xs"
  by (rule sortBy_sort_key) simp

lemma compareSteps_le:
  assumes "numericPriority a" and "numericPriority b"
  shows "sortCompare (compareSteps a b) \<le> 0 \<longleftrightarrow> sortKey a \<le> sortKey b"
  using assms
  by (auto simp: numericPriority_def compareSteps_def sortKey_def sortCompare_def Let_def
      split: if_splits)

lemma priority_table:
  "getStepTypePriority (Some ''package-update'') = Some 1"
  "getStepTypePriority (Some ''dependencies'') = Some 2"
  "getStepTypePriority (Some ''configuration'') = Some 3"
  "getStepTypePriority (Some ''code-update'') = Some 4"
  "getStepTypePriority (Some ''testing'') = Some 5"
  "getStepTypePriority (Some ''deployment'') = Some 6"
  "getStepTypePriority None = Some 10"
  by (simp_all add: getStepTypePriority_def priorities_def orTen_def objectPrototypeKeys_def)

lemma priority_unknown:
  "t \<notin> set [''package-update'', ''dependencies'', ''configuration'', ''code-update'',
              ''testing'', ''deployment''] \<Longrightarrow> t \<notin> set objectPrototypeKeys \<Longrightarrow>
   getStepTypePriority (Some t) = Some 10"
  by (simp add: getStepTypePriority_def priorities_def orTen_def objectPrototypeKeys_def)

lemma priority_inherited:
  "t \<in> set objectPrototypeKeys \<Longrightarrow> getStepTypePriority (Some t) = None"
  by (auto simp: getStepTypePriority_def priorities_def orTen_def objectPrototypeKeys_def)

text \<open>Steps whose types all have a priority that is a number come out sorted by the key,
  steps of equal key in their order, and sorting again changes nothing.\<close>

lemma numeric_priorities_sorted_stable:
  assumes "\<forall>s \<in> set steps. numericPriority s"
  shows "sorted (map sortKey (sortBy (\<lambda>a b. sortCompare (compareSteps a b)) steps))"
    and "filter (\<lambda>s. sortKey s = k) (sortBy (\<lambda>a b. sortCompare (compareSteps a b)) steps)
         = filter (\<lambda>s. sortKey s = k) steps"
    and "sortBy (\<lambda>a b. sortCompare (compareSteps a b))
           (sortBy (\<lambda>a b. sortCompare (compareSteps a b)) steps)
         = sortBy (\<lambda>a b. sortCompare (compareSteps a b)) steps"
proof -
  let ?cmp = "\<lambda>a b. sortCompare (compareSteps a b)"
  have eq: "sortBy ?cmp steps = sort_key sortKey steps"
    using assms by (intro sortBy_sort_key compareSteps_le) auto
  show "sorted (map sortKey (sortBy ?cmp steps))"
    by (simp add: eq)
  show "filter (\<lambda>s. sortKey s = k) (sortBy ?cmp steps) = filter (\<lambda>s. sortKey s = k) steps"
    by (simp add: eq sort_key_stable)
  have "sortBy ?cmp (sort_key sortKey steps) = sort_key sortKey (sort_key sortKey steps)"
    using assms by (intro sortBy_sort_key compareSteps_le) auto
  then show "sortBy ?cmp (sortBy ?cmp steps) = sortBy ?cmp steps"
    by (simp add: eq sort_key_id_if_sorted)
qed

text \<open>With types that are known, unknown or absent the package update moves to the front
  and the two steps of priority 10 keep their order.\<close>

lemma numeric_priorities_example:
  "getUpgradeSteps orderingExample ''Next.JS'' 1 2 =
     Inr [mkStep ''Update packages to 2'' [] 1 2 (Some ''package-update'') None,
          mkStep ''Run tests'' [] 1 2 (Some ''testing'') None,
          mkStep ''Read notes'' [] 1 2 (Some ''notes'') None,
          mkStep ''Plan'' [] 1 2 None None]"
  by code_simp

text \<open>
  C6. A step type that names a member of \<^verbatim>\<open>Object.prototype\<close> is an unknown type, and
  the table lookup does not give it the priority 10: the lookup finds the inherited
  member, the fallback \<^verbatim>\<open>|| 10\<close> does not apply, the comparator returns \<^verbatim>\<open>NaN\<close> and
  the sort takes the two steps for equal. A catalog with a step of type \<^verbatim>\<open>toString\<close>
  before a testing step, both from 1 to 2, comes out in catalog order, although the key of
  the first (priority 10) is greater than the key of the second (priority 5).
\<close>

theorem inherited_type_keeps_catalog_order:
  "getUpgradeSteps inheritedTypeExample ''Next.JS'' 1 2
     = Inr [mkStep ''Review the custom serializers'' [] 1 2 (Some ''toString'') None,
            mkStep ''Run tests'' [] 1 2 (Some ''testing'') None]
   \<and> getStepTypePriority (Some ''toString'') = None
   \<and> getStepTypePriority (Some ''testing'') = Some 5
   \<and> compareSteps (mkStep ''Review the custom serializers'' [] 1 2 (Some ''toString'') None)
         (mkStep ''Run tests'' [] 1 2 (Some ''testing'') None) = None"
  by code_simp

subsection \<open>Grouping and duplicate removal\<close>

lemma firstSeen_snoc:
  "firstSeen (ks @ [k]) = (if k \<in> set ks then firstSeen ks else firstSeen ks @ [k])"
  by (simp add: firstSeen_def)

lemma set_firstSeen [simp]: "set (firstSeen ks) = set ks"
  by (simp add: firstSeen_def)

lemma distinct_firstSeen [simp]: "distinct (firstSeen ks)"
  by (simp add: firstSeen_def)

lemma groupPush_present:
  "k \<in> set ks \<Longrightarrow> distinct ks \<Longrightarrow>
   groupPush k x (map (\<lambda>k'. (k', f k')) ks)
     = map (\<lambda>k'. (k', if k' = k then f k' @ [x] else f k')) ks"
  by (induction ks) auto

lemma groupPush_absent:
  "k \<notin> set ks \<Longrightarrow>
   groupPush k x (map (\<lambda>k'. (k', f k')) ks) = map (\<lambda>k'. (k', f k')) ks @ [(k, [x])]"
  by (induction ks) auto

lemma filter_key_absent:
  "k \<notin> set (map key xs) \<Longrightarrow> filter (\<lambda>y. key y = k) xs = []"
  by (induction xs) auto

lemma groupPush_groupsOf:
  "groupPush (key x) x (groupsOf key xs) = groupsOf key (xs @ [x])"
proof (cases "key x \<in> set (map key xs)")
  case True
  then show ?thesis
    by (simp add: groupsOf_def firstSeen_snoc groupPush_present)
next
  case False
  then have "filter (\<lambda>y. key y = key x) xs = []"
    by (rule filter_key_absent)
  with False show ?thesis
    by (auto simp add: groupsOf_def firstSeen_snoc groupPush_absent)
qed

lemma groupsOf_Nil [simp]: "groupsOf key [] = []"
  by (simp add: groupsOf_def firstSeen_def)

lemma foldl_groupByType:
  "foldl groupByType (groupsOf typeOf cs, ns) steps
     = (groupsOf typeOf (cs @ filter consolidatable steps),
        ns @ filter (\<lambda>s. \<not> consolidatable s) steps)"
proof (induction steps arbitrary: cs ns)
  case Nil
  show ?case by simp
next
  case (Cons s steps)
  show ?case
  proof (cases "consolidatable s")
    case True
    then obtain t where t: "stepType s = Some t" "t \<noteq> []" "shouldConsolidate t"
      by (auto simp: consolidatable_def split: option.splits)
    then have "groupByType (groupsOf typeOf cs, ns) s = (groupsOf typeOf (cs @ [s]), ns)"
      using groupPush_groupsOf [of typeOf s cs]
      by (simp add: groupByType_def typeOf_def)
    with True Cons [of "cs @ [s]" ns] show ?thesis by simp
  next
    case False
    then have "groupByType (groupsOf typeOf cs, ns) s = (groupsOf typeOf cs, ns @ [s])"
      by (auto simp: groupByType_def consolidatable_def split: option.splits)
    with False Cons [of cs "ns @ [s]"] show ?thesis by simp
  qed
qed

lemma consolidateByType_groups:
  "consolidateByType rt steps tv
     = concat (map (consolidateTypeGroup rt tv) (groupsOf typeOf (filter consolidatable steps)))
       @ filter (\<lambda>s. \<not> consolidatable s) steps"
  using foldl_groupByType [of "[]" "[]" steps]
  by (simp add: consolidateByType_def)

lemma foldl_groupByFile:
  "foldl groupByFile (groupsOf fileOf cs, ns) steps
     = (groupsOf fileOf (cs @ filter hasFile steps),
        ns @ filter (\<lambda>s. \<not> hasFile s) steps)"
proof (induction steps arbitrary: cs ns)
  case Nil
  show ?case by simp
next
  case (Cons s steps)
  show ?case
  proof (cases "hasFile s")
    case True
    then obtain f where f: "affectedFile s = Some f" "f \<noteq> []"
      by (auto simp: hasFile_def truthy_def split: option.splits)
    then have "groupByFile (groupsOf fileOf cs, ns) s = (groupsOf fileOf (cs @ [s]), ns)"
      using groupPush_groupsOf [of fileOf s cs]
      by (simp add: groupByFile_def fileOf_def)
    with True Cons [of "cs @ [s]" ns] show ?thesis by simp
  next
    case False
    then have "groupByFile (groupsOf fileOf cs, ns) s = (groupsOf fileOf cs, ns @ [s])"
      by (auto simp: groupByFile_def hasFile_def truthy_def split: option.splits)
    with False Cons [of cs "ns @ [s]"] show ?thesis by simp
  qed
qed

lemma consolidateByAffectedFile_groups:
  "consolidateByAffectedFile steps
     = concat (map consolidateFileGroup (groupsOf fileOf (filter hasFile steps)))
       @ filter (\<lambda>s. \<not> hasFile s) steps"
  using foldl_groupByFile [of "[]" "[]" steps]
  by (simp add: consolidateByAffectedFile_def)

lemma groupsOf_member:
  "(k, vs) \<in> set (groupsOf key xs) \<Longrightarrow> vs = filter (\<lambda>x. key x = k) xs \<and> vs \<noteq> [] \<and> k \<in> key ` set xs"
  by (auto simp: groupsOf_def filter_empty_conv)

lemma minOf_Min: "xs \<noteq> [] \<Longrightarrow> minOf xs = Min (set xs)"
proof (cases xs)
  case Nil
  then show "xs \<noteq> [] \<Longrightarrow> ?thesis" by simp
next
  case (Cons x ys)
  have "foldl min x ys = fold min ys x"
    by (induction ys arbitrary: x) (simp_all add: min.commute)
  then show ?thesis
    using Cons Min.set_eq_fold [of x ys] by simp
qed

lemma dedupLoop_subset: "set (dedupLoop rt seen steps) \<subseteq> set steps"
  by (induction steps arbitrary: seen) (auto simp: Let_def)

lemma dedupLoop_nths:
  "dedupLoop rt seen steps
     = nths steps {i. i < length steps
                      \<and> hashInstruction rt (instruction (steps ! i)) \<notin> seen
                      \<and> (\<forall>j<i. hashInstruction rt (instruction (steps ! j))
                                \<noteq> hashInstruction rt (instruction (steps ! i)))}"
proof (induction steps arbitrary: seen)
  case Nil
  show ?case by simp
next
  case (Cons s steps)
  let ?h = "\<lambda>x. hashInstruction rt (instruction x)"
  let ?A = "\<lambda>seen xs. {i. i < length xs \<and> ?h (xs ! i) \<notin> seen \<and> (\<forall>j<i. ?h (xs ! j) \<noteq> ?h (xs ! i))}"
  have shift: "{j. Suc j \<in> ?A seen (s # steps)} = ?A (insert (?h s) seen) steps"
    by (auto simp: less_Suc_eq_0_disj nth_Cons split: nat.splits)
  have zero: "0 \<in> ?A seen (s # steps) \<longleftrightarrow> ?h s \<notin> seen"
    by simp
  show ?case
  proof (cases "?h s \<in> seen")
    case True
    then have "insert (?h s) seen = seen" by auto
    with True show ?thesis
      using Cons [of seen] shift zero by (simp add: nths_Cons Let_def)
  next
    case False
    then show ?thesis
      using Cons [of "insert (?h s) seen"] shift zero by (simp add: nths_Cons Let_def)
  qed
qed

lemma removeDuplicateInstructions_first:
  assumes "inj_on (md5hex rt) (normalized ` set steps)"
  shows "removeDuplicateInstructions rt steps
         = nths steps {i. i < length steps
                          \<and> (\<forall>j<i. normalized (steps ! j) \<noteq> normalized (steps ! i))}"
proof -
  have "hashInstruction rt (instruction (steps ! j)) \<noteq> hashInstruction rt (instruction (steps ! i))
        \<longleftrightarrow> normalized (steps ! j) \<noteq> normalized (steps ! i)"
    if "i < length steps" "j < i" for i j
  proof -
    have "normalized (steps ! i) \<in> normalized ` set steps"
      and "normalized (steps ! j) \<in> normalized ` set steps"
      using that by simp_all
    then show ?thesis
      using assms by (auto simp: hashInstruction_def normalized_def dest: inj_onD)
  qed
  then have "{i. i < length steps
                 \<and> hashInstruction rt (instruction (steps ! i)) \<notin> {}
                 \<and> (\<forall>j<i. hashInstruction rt (instruction (steps ! j))
                           \<noteq> hashInstruction rt (instruction (steps ! i)))}
             = {i. i < length steps
                   \<and> (\<forall>j<i. normalized (steps ! j) \<noteq> normalized (steps ! i))}"
    by auto
  then show ?thesis
    by (simp add: removeDuplicateInstructions_def dedupLoop_nths)
qed

lemma removeDuplicateInstructions_subset:
  "set (removeDuplicateInstructions rt steps) \<subseteq> set steps"
  by (simp add: removeDuplicateInstructions_def dedupLoop_subset)

lemma consolidatePackageUpdates_Nil [simp]: "consolidatePackageUpdates rt [] tv = None"
  by (simp add: consolidatePackageUpdates_def)

lemma consolidatePackageUpdates_Some:
  assumes "grp \<noteq> []"
  shows "\<exists>m. consolidatePackageUpdates rt grp tv = Some m
             \<and> fromV m = Min (fromV ` set grp) \<and> toV m = tv
             \<and> stepType m = stepType (hd grp) \<and> affectedFile m = None"
proof -
  obtain s rest where grp: "grp = s # rest"
    using assms by (cases grp) auto
  have "minOf (map fromV grp) = Min (fromV ` set grp)"
    using assms minOf_Min [of "map fromV grp"] by simp
  then show ?thesis
    unfolding grp consolidatePackageUpdates_def by (simp add: Let_def)
qed

lemma hd_filter: "filter P xs \<noteq> [] \<Longrightarrow> P (hd (filter P xs))"
  by (induction xs) auto

lemma concat_single_key:
  assumes "distinct ks" and "\<forall>k \<in> set ks. k \<noteq> a \<longrightarrow> f k = []"
  shows "concat (map f ks) = (if a \<in> set ks then f a else [])"
  using assms by (induction ks) auto

lemma isPackageUpdate_consolidatable: "isPackageUpdate s \<Longrightarrow> consolidatable s"
  by (simp add: isPackageUpdate_def consolidatable_def shouldConsolidate_def)

lemma typeOf_package: "typeOf s = ''package-update'' \<longleftrightarrow> isPackageUpdate s"
  by (auto simp: typeOf_def isPackageUpdate_def split: option.splits)

lemma package_group:
  "filter (\<lambda>s. typeOf s = ''package-update'') (filter consolidatable steps)
     = filter isPackageUpdate steps"
  by (induction steps) (auto simp: typeOf_package isPackageUpdate_consolidatable)

lemma other_group_no_package:
  assumes "k \<noteq> ''package-update''"
  shows "filter isPackageUpdate
           (consolidateTypeGroup rt tv (k, filter (\<lambda>s. typeOf s = k) cs)) = []"
proof -
  have "\<not> isPackageUpdate x"
    if "x \<in> set (removeDuplicateInstructions rt (filter (\<lambda>s. typeOf s = k) cs))" for x
  proof -
    have "typeOf x = k"
      using that removeDuplicateInstructions_subset by fastforce
    with assms show ?thesis by (simp add: typeOf_package [symmetric])
  qed
  then show ?thesis
    using assms by (simp add: consolidateTypeGroup_def filter_empty_conv)
qed

lemma consolidateByType_package:
  "filter isPackageUpdate (consolidateByType rt steps tv)
     = (case consolidatePackageUpdates rt (filter isPackageUpdate steps) tv of
          None \<Rightarrow> [] | Some m \<Rightarrow> [m])"
proof -
  let ?cs = "filter consolidatable steps"
  let ?ks = "firstSeen (map typeOf ?cs)"
  let ?f = "\<lambda>k. filter isPackageUpdate
                   (consolidateTypeGroup rt tv (k, filter (\<lambda>s. typeOf s = k) ?cs))"
  let ?grp = "filter isPackageUpdate steps"
  have rest: "filter (\<lambda>x. \<not> consolidatable x \<and> isPackageUpdate x) steps = []"
    by (auto simp: filter_empty_conv isPackageUpdate_consolidatable)
  have "filter isPackageUpdate (consolidateByType rt steps tv) = concat (map ?f ?ks)"
    by (simp add: consolidateByType_groups groupsOf_def filter_concat comp_def rest)
  also have "\<dots> = (if ''package-update'' \<in> set ?ks then ?f ''package-update'' else [])"
  proof (rule concat_single_key)
    show "distinct ?ks" by simp
    show "\<forall>k \<in> set ?ks. k \<noteq> ''package-update'' \<longrightarrow> ?f k = []"
      using other_group_no_package by blast
  qed
  finally have eq: "filter isPackageUpdate (consolidateByType rt steps tv)
        = (if ''package-update'' \<in> set ?ks then ?f ''package-update'' else [])" .
  show ?thesis
  proof (cases "?grp = []")
    case True
    then have "''package-update'' \<notin> set ?ks"
      using typeOf_package by (fastforce simp: filter_empty_conv)
    with True eq show ?thesis by simp
  next
    case False
    then obtain s where s: "s \<in> set steps" "isPackageUpdate s"
      by (auto simp: filter_empty_conv)
    then have mem: "''package-update'' \<in> set ?ks"
      using isPackageUpdate_consolidatable [of s] typeOf_package [of s] by force
    obtain m where m: "consolidatePackageUpdates rt ?grp tv = Some m"
      "stepType m = stepType (hd ?grp)"
      using consolidatePackageUpdates_Some [OF False] by blast
    have "isPackageUpdate (hd ?grp)" using False by (rule hd_filter)
    then have "isPackageUpdate m"
      using m(2) by (simp add: isPackageUpdate_def)
    then have "?f ''package-update'' = [m]"
      using m(1) by (simp add: consolidateTypeGroup_def package_group del: filter_filter)
    with mem eq m(1) show ?thesis by simp
  qed
qed

text \<open>
  C2. Type consolidation emits nothing for an empty group of package updates and exactly one
  step for a non-empty one: the steps of type package-update in its output are the one merged
  step, whose \<open>from\<close> is the least \<open>from\<close> of the group, whose \<open>to\<close> is the
  requested \<open>toVersion\<close> (not the greatest \<open>to\<close> of the data), whose type is
  package-update and which names no affected file.
\<close>

theorem package_updates_merge_to_one:
  "consolidatePackageUpdates rt [] targetVersion = None
   \<and> (filter isPackageUpdate steps = []
        \<longrightarrow> filter isPackageUpdate (consolidateByType rt steps targetVersion) = [])
   \<and> (filter isPackageUpdate steps \<noteq> []
        \<longrightarrow> (\<exists>m. consolidatePackageUpdates rt (filter isPackageUpdate steps) targetVersion = Some m
                 \<and> filter isPackageUpdate (consolidateByType rt steps targetVersion) = [m]
                 \<and> fromV m = Min (fromV ` set (filter isPackageUpdate steps))
                 \<and> toV m = targetVersion
                 \<and> stepType m = Some ''package-update''
                 \<and> affectedFile m = None))"
proof -
  let ?grp = "filter isPackageUpdate steps"
  have "\<exists>m. consolidatePackageUpdates rt ?grp targetVersion = Some m
             \<and> filter isPackageUpdate (consolidateByType rt steps targetVersion) = [m]
             \<and> fromV m = Min (fromV ` set ?grp) \<and> toV m = targetVersion
             \<and> stepType m = Some ''package-update'' \<and> affectedFile m = None"
    if ne: "?grp \<noteq> []"
  proof -
    obtain m where m: "consolidatePackageUpdates rt ?grp targetVersion = Some m"
      "fromV m = Min (fromV ` set ?grp)" "toV m = targetVersion"
      "stepType m = stepType (hd ?grp)" "affectedFile m = None"
      using consolidatePackageUpdates_Some [OF ne] by blast
    have "isPackageUpdate (hd ?grp)" using ne by (rule hd_filter)
    then have "stepType m = Some ''package-update''"
      using m(4) by (simp add: isPackageUpdate_def)
    with m show ?thesis
      by (simp add: consolidateByType_package)
  qed
  moreover have "filter isPackageUpdate (consolidateByType rt steps targetVersion) = []"
    if "?grp = []"
    using that by (simp add: consolidateByType_package)
  ultimately show ?thesis by simp
qed

text \<open>Three package updates from 1 to 2, 2 to 3 and 3 to 4 and a test step, asked for the
  window up to 4: one package update from 1 to 4 remains, without the file of the second.\<close>

theorem package_updates_merge_to_one_witness:
  "filter isPackageUpdate [mkStep ''Run tests'' [] 1 4 (Some ''testing'') None] = []
   \<and> filter isPackageUpdate
       (consolidateByType exampleRuntime [mkStep ''Run tests'' [] 1 4 (Some ''testing'') None] 4)
       = []
   \<and> filter isPackageUpdate packageExample \<noteq> []
   \<and> consolidateByType exampleRuntime packageExample 4
       = [mkStep ''Update packages to 4'' ''Install the packages of version 4'' 1 4
            (Some ''package-update'') None,
          mkStep ''Run tests'' [] 1 4 (Some ''testing'') None]
   \<and> Min (fromV ` set (filter isPackageUpdate packageExample)) = 1"
proof -
  have none: "filter isPackageUpdate [mkStep ''Run tests'' [] 1 4 (Some ''testing'') None] = []"
    by (simp add: isPackageUpdate_def mkStep_def)
  have some: "filter isPackageUpdate packageExample \<noteq> []"
    by (simp add: isPackageUpdate_def mkStep_def packageExample_def)
  have run: "consolidateByType exampleRuntime packageExample 4
       = [mkStep ''Update packages to 4'' ''Install the packages of version 4'' 1 4
            (Some ''package-update'') None,
          mkStep ''Run tests'' [] 1 4 (Some ''testing'') None]"
    by code_simp
  have is_pu: "isPackageUpdate (mkStep ''Update packages to 4'' ''Install the packages of version 4'' 1 4
            (Some ''package-update'') None)"
    "\<not> isPackageUpdate (mkStep ''Run tests'' [] 1 4 (Some ''testing'') None)"
    by (simp_all add: isPackageUpdate_def mkStep_def)
  show ?thesis
    using none some run is_pu
      package_updates_merge_to_one
        [of exampleRuntime 4 "[mkStep ''Run tests'' [] 1 4 (Some ''testing'') None]"]
      package_updates_merge_to_one [of exampleRuntime 4 packageExample]
    by (auto simp: mkStep_def)
qed

lemma removeDuplicateInstructions_digest:
  "removeDuplicateInstructions rt steps
     = nths steps {i. i < length steps
                      \<and> (\<forall>j<i. md5hex rt (normalized (steps ! j))
                                \<noteq> md5hex rt (normalized (steps ! i)))}"
  by (simp add: removeDuplicateInstructions_def dedupLoop_nths hashInstruction_def
      normalized_def)

text \<open>
  C4 (amended). For a group of kind dependencies or configuration the duplicate removal
  returns the steps at exactly those positions whose instruction is equivalent to none at
  an earlier position, two instructions being equivalent iff their texts, trimmed and in
  lower case, have the same MD5 digest: the first occurrence of each class, in input
  order, and nothing else is dropped. Instructions that are equal after trimming and
  lowercasing are always equivalent; where the digest has no collision among the
  normalized instructions of the group, they are the only equivalent ones.
\<close>

theorem duplicates_first_digest_wins:
  "removeDuplicateInstructions rt steps
     = nths steps {i. i < length steps
                      \<and> (\<forall>j<i. md5hex rt (normalized (steps ! j))
                                \<noteq> md5hex rt (normalized (steps ! i)))}
   \<and> subseq (removeDuplicateInstructions rt steps) steps
   \<and> (inj_on (md5hex rt) (normalized ` set steps)
        \<longrightarrow> removeDuplicateInstructions rt steps
              = nths steps {i. i < length steps
                               \<and> (\<forall>j<i. normalized (steps ! j) \<noteq> normalized (steps ! i))})
   \<and> consolidateTypeGroup rt targetVersion (''dependencies'', steps)
       = removeDuplicateInstructions rt steps
   \<and> consolidateTypeGroup rt targetVersion (''configuration'', steps)
       = removeDuplicateInstructions rt steps"
proof -
  have "subseq (removeDuplicateInstructions rt steps) steps"
    unfolding subseq_conv_nths using removeDuplicateInstructions_digest by blast
  moreover have "inj_on (md5hex rt) (normalized ` set steps)
        \<longrightarrow> removeDuplicateInstructions rt steps
              = nths steps {i. i < length steps
                               \<and> (\<forall>j<i. normalized (steps ! j) \<noteq> normalized (steps ! i))}"
    using removeDuplicateInstructions_first [of rt steps] by blast
  moreover have "consolidateTypeGroup rt targetVersion (''dependencies'', steps)
       = removeDuplicateInstructions rt steps"
    "consolidateTypeGroup rt targetVersion (''configuration'', steps)
       = removeDuplicateInstructions rt steps"
    by (simp_all add: consolidateTypeGroup_def)
  ultimately show ?thesis
    using removeDuplicateInstructions_digest [of rt steps] by blast
qed

text \<open>The third instruction equals the first up to case and surrounding blanks and is
  dropped; the second is kept.\<close>

theorem duplicates_first_digest_wins_witness:
  "inj_on (md5hex exampleRuntime) (normalized ` set duplicateExample)
   \<and> normalized (duplicateExample ! 0) = normalized (duplicateExample ! 2)
   \<and> instruction (duplicateExample ! 0) \<noteq> instruction (duplicateExample ! 2)
   \<and> removeDuplicateInstructions exampleRuntime duplicateExample
       = [duplicateExample ! 0, duplicateExample ! 1]
   \<and> nths duplicateExample
         {i. i < length duplicateExample
             \<and> (\<forall>j<i. normalized (duplicateExample ! j) \<noteq> normalized (duplicateExample ! i))}
       = [duplicateExample ! 0, duplicateExample ! 1]"
proof -
  have inj: "inj_on (md5hex exampleRuntime) (normalized ` set duplicateExample)"
    by (simp add: exampleRuntime_def)
  have same: "normalized (duplicateExample ! 0) = normalized (duplicateExample ! 2)"
    by code_simp
  have differ: "instruction (duplicateExample ! 0) \<noteq> instruction (duplicateExample ! 2)"
    by (simp add: duplicateExample_def mkStep_def)
  have run: "removeDuplicateInstructions exampleRuntime duplicateExample
       = [duplicateExample ! 0, duplicateExample ! 1]"
    by code_simp
  have eq: "removeDuplicateInstructions exampleRuntime duplicateExample
       = nths duplicateExample
           {i. i < length duplicateExample
               \<and> (\<forall>j<i. normalized (duplicateExample ! j) \<noteq> normalized (duplicateExample ! i))}"
    using inj duplicates_first_digest_wins [of exampleRuntime duplicateExample 4] by blast
  have kept: "nths duplicateExample
         {i. i < length duplicateExample
             \<and> (\<forall>j<i. normalized (duplicateExample ! j) \<noteq> normalized (duplicateExample ! i))}
       = [duplicateExample ! 0, duplicateExample ! 1]"
    by (rule trans [OF eq [symmetric] run])
  show ?thesis
    by (intro conjI inj same differ run kept)
qed

text \<open>A digest has 32 characters, so it takes finitely many values and two of the
  instructions \<open>a\<close>, \<open>aa\<close>, \<open>aaa\<close>, ... share one. They stay different when trimmed and
  put in lower case, and the second of them is dropped.\<close>

lemma normalized_letters:
  "normalized (mkStep (replicate n (CHR ''a'')) d f t ty file) = replicate n (CHR ''a'')"
proof -
  have ws: "\<not> isWhiteSpace (CHR ''a'')" by code_simp
  have low: "lowerChar (CHR ''a'') = CHR ''a''" by code_simp
  have "dropWhile isWhiteSpace (replicate n (CHR ''a'')) = replicate n (CHR ''a'')"
    using ws by (cases n) simp_all
  then have "trim (replicate n (CHR ''a'')) = replicate n (CHR ''a'')"
    by (simp add: trim_def)
  then show ?thesis
    using low by (simp add: normalized_def mkStep_def toLowerCase_def)
qed

lemma digest_collides:
  fixes h :: "string \<Rightarrow> string"
  assumes "\<forall>s. length (h s) = 32"
  shows "\<exists>n m. n \<noteq> m \<and> h (replicate n (CHR ''a'')) = h (replicate m (CHR ''a'') :: string)"
proof (rule ccontr)
  assume "\<not> ?thesis"
  then have inj: "inj (\<lambda>n. h (replicate n (CHR ''a'')))"
    by (auto simp: inj_on_def)
  have "range (\<lambda>n. h (replicate n (CHR ''a''))) \<subseteq> {s :: string. set s \<subseteq> UNIV \<and> length s = 32}"
    using assms by auto
  moreover have "finite {s :: string. set s \<subseteq> UNIV \<and> length s = 32}"
    by (rule finite_lists_length_eq) simp
  ultimately have "finite (range (\<lambda>n. h (replicate n (CHR ''a''))))"
    by (rule finite_subset)
  then have "finite (UNIV :: nat set)"
    using inj by (rule finite_imageD)
  then show False by simp
qed

theorem digest_collision_counterexample:
  "\<not> (\<exists>rt. (\<forall>s. length (md5hex rt s) = 32)
          \<and> (\<forall>steps. removeDuplicateInstructions rt steps
                = nths steps {i. i < length steps
                                 \<and> (\<forall>j<i. normalized (steps ! j) \<noteq> normalized (steps ! i))}))"
proof
  assume "\<exists>rt. (\<forall>s. length (md5hex rt s) = 32)
          \<and> (\<forall>steps. removeDuplicateInstructions rt steps
                = nths steps {i. i < length steps
                                 \<and> (\<forall>j<i. normalized (steps ! j) \<noteq> normalized (steps ! i))})"
  then obtain rt where len: "\<forall>s. length (md5hex rt s) = 32"
    and all: "\<And>steps. removeDuplicateInstructions rt steps
                = nths steps {i. i < length steps
                                 \<and> (\<forall>j<i. normalized (steps ! j) \<noteq> normalized (steps ! i))}"
    by blast
  obtain n m where nm: "n \<noteq> m"
    "md5hex rt (replicate n (CHR ''a'')) = md5hex rt (replicate m (CHR ''a''))"
    using digest_collides [OF len] by blast
  define a where "a = mkStep (replicate n (CHR ''a'')) [] 1 2 (Some ''configuration'') None"
  define b where "b = mkStep (replicate m (CHR ''a'')) [] 1 2 (Some ''configuration'') None"
  have na: "normalized a = replicate n (CHR ''a'')" and nb: "normalized b = replicate m (CHR ''a'')"
    by (simp_all add: a_def b_def normalized_letters)
  have differ: "normalized a \<noteq> normalized b"
    using nm(1) na nb by (metis length_replicate)
  have "{i. i < length [a, b] \<and> (\<forall>j<i. normalized ([a, b] ! j) \<noteq> normalized ([a, b] ! i))}
        = {0, 1}"
    using differ by (auto simp: less_Suc_eq)
  then have "nths [a, b] {i. i < length [a, b]
                     \<and> (\<forall>j<i. normalized ([a, b] ! j) \<noteq> normalized ([a, b] ! i))} = [a, b]"
    by (simp add: nths_Cons)
  moreover have "removeDuplicateInstructions rt [a, b] = [a]"
    using nm(2) na nb
    by (simp add: removeDuplicateInstructions_def hashInstruction_def normalized_def Let_def)
  ultimately show False
    using all [of "[a, b]"] by simp
qed

subsection \<open>File consolidation\<close>

lemma sorted_first_Min:
  assumes "xs \<noteq> []" and "sorted (map f xs)"
  shows "f (xs ! 0) = Min (f ` set xs)"
proof -
  have "f (xs ! 0) \<le> f y" if y: "y \<in> set xs" for y
  proof -
    obtain i where i: "i < length xs" "xs ! i = y"
      using y by (auto simp: in_set_conv_nth)
    then have "map f xs ! 0 \<le> map f xs ! i"
      using assms(2) by (intro sorted_nth_mono) simp_all
    with i assms(1) show ?thesis by simp
  qed
  moreover have "f (xs ! 0) \<in> f ` set xs"
    using assms(1) by simp
  ultimately show ?thesis
    by (intro Min_eqI [symmetric]) auto
qed

lemma sorted_last_Max:
  assumes "xs \<noteq> []" and "sorted (map f xs)"
  shows "f (xs ! (length xs - 1)) = Max (f ` set xs)"
proof -
  have "f y \<le> f (xs ! (length xs - 1))" if y: "y \<in> set xs" for y
  proof -
    obtain i where i: "i < length xs" "xs ! i = y"
      using y by (auto simp: in_set_conv_nth)
    then have "map f xs ! i \<le> map f xs ! (length xs - 1)"
      using assms(2) by (intro sorted_nth_mono) simp_all
    with i assms(1) show ?thesis by simp
  qed
  moreover have "f (xs ! (length xs - 1)) \<in> f ` set xs"
    using assms(1) by simp
  ultimately show ?thesis
    by (intro Max_eqI [symmetric]) auto
qed

lemma consolidateFileSteps_Some:
  assumes "grp \<noteq> []"
  shows "\<exists>m. consolidateFileSteps grp f = Some m
             \<and> fromV m = fromV (sort_key fromV grp ! 0)
             \<and> toV m = toV (sort_key fromV grp ! (length grp - 1))
             \<and> instruction m
                 = createConsolidatedInstruction (getUniqueInstructions (sort_key fromV grp)) f
             \<and> affectedFile m = Some f"
  using assms by (simp add: consolidateFileSteps_def Let_def sortBy_fromV)

lemma consolidateFileSteps_extremes:
  assumes "grp \<noteq> []" and "consolidateFileSteps grp f = Some m"
  shows "fromV m = Min (fromV ` set grp)"
    and "toV m = toV (last (sort_key fromV grp))"
    and "fromV (last (sort_key fromV grp)) = Max (fromV ` set grp)"
    and "last (sort_key fromV grp) \<in> set grp"
    and "affectedFile m = Some f"
proof -
  let ?ys = "sort_key fromV grp"
  have ne: "?ys \<noteq> []" using assms(1) by (metis length_sort length_0_conv)
  have srt: "sorted (map fromV ?ys)" by simp
  have lst: "last ?ys = ?ys ! (length grp - 1)"
    using ne by (simp add: last_conv_nth)
  have m: "fromV m = fromV (?ys ! 0)" "toV m = toV (?ys ! (length grp - 1))"
    "affectedFile m = Some f"
    using consolidateFileSteps_Some [OF assms(1), of f] assms(2) by auto
  show "fromV m = Min (fromV ` set grp)"
    using sorted_first_Min [OF ne srt] m(1) by simp
  show "toV m = toV (last ?ys)"
    using m(2) lst by simp
  show "fromV (last ?ys) = Max (fromV ` set grp)"
    using sorted_last_Max [OF ne srt] lst by simp
  show "last ?ys \<in> set grp"
    using ne last_in_set [of ?ys] by simp
  show "affectedFile m = Some f" by (rule m(3))
qed

lemma consolidateFileGroup_single:
  assumes "grp \<noteq> []"
  shows "\<exists>m. consolidateFileGroup (f, grp) = [m]
             \<and> (length grp = 1 \<longrightarrow> m = grp ! 0)
             \<and> (length grp \<noteq> 1 \<longrightarrow> consolidateFileSteps grp f = Some m)"
  using consolidateFileSteps_Some [OF assms, of f]
  by (auto simp: consolidateFileGroup_def)

lemma file_group:
  assumes "f \<noteq> []"
  shows "filter (\<lambda>s. fileOf s = f) (filter hasFile steps)
         = filter (\<lambda>s. affectedFile s = Some f) steps"
proof -
  have "(hasFile s \<and> fileOf s = f) \<longleftrightarrow> affectedFile s = Some f" for s
    using assms by (auto simp: hasFile_def fileOf_def truthy_def split: option.splits)
  then show ?thesis by simp
qed

lemma hasFile_iff: "hasFile s \<longleftrightarrow> (\<exists>f. affectedFile s = Some f \<and> f \<noteq> [] \<and> fileOf s = f)"
  by (cases "affectedFile s") (simp_all add: hasFile_def truthy_def fileOf_def)

lemma file_key_nonempty:
  "f \<in> set (map fileOf (filter hasFile steps)) \<Longrightarrow> f \<noteq> []"
  by (auto simp: hasFile_def fileOf_def truthy_def split: option.splits)

text \<open>
  C5. File consolidation returns one step for each affected file, in the order in which the
  files first occur, followed by the steps without an affected file, unchanged and in their
  order. A file that one step names yields that step unchanged. A file that two or more
  steps name yields one merged step: its \<open>from\<close> is the least \<open>from\<close> of the group, its
  \<open>to\<close> is the \<open>to\<close> of the last step of the group sorted by \<open>from\<close> ascending, a
  step of greatest \<open>from\<close>, and its affected file is the group's file.
\<close>

theorem file_consolidation_shape:
  "(\<exists>merged.
     consolidateByAffectedFile steps = merged @ filter (\<lambda>s. \<not> truthy (affectedFile s)) steps
     \<and> list_all2
         (\<lambda>m f. let grp = filter (\<lambda>s. affectedFile s = Some f) steps
                 in (length grp = 1 \<longrightarrow> m = grp ! 0)
                    \<and> (2 \<le> length grp \<longrightarrow>
                          fromV m = Min (fromV ` set grp)
                          \<and> toV m = toV (last (sort_key fromV grp))
                          \<and> fromV (last (sort_key fromV grp)) = Max (fromV ` set grp)
                          \<and> affectedFile m = Some f))
         merged (fileNames steps))
   \<and> distinct (fileNames steps)
   \<and> set (fileNames steps)
       = {f. f \<noteq> [] \<and> (\<exists>s \<in> set steps. affectedFile s = Some f)}"
proof -
  let ?grp = "\<lambda>f. filter (\<lambda>s. affectedFile s = Some f) steps"
  let ?R = "\<lambda>m f. (length (?grp f) = 1 \<longrightarrow> m = ?grp f ! 0)
                    \<and> (2 \<le> length (?grp f) \<longrightarrow>
                          fromV m = Min (fromV ` set (?grp f))
                          \<and> toV m = toV (last (sort_key fromV (?grp f)))
                          \<and> fromV (last (sort_key fromV (?grp f))) = Max (fromV ` set (?grp f))
                          \<and> affectedFile m = Some f)"
  let ?g = "\<lambda>f. hd (consolidateFileGroup (f, ?grp f))"
  have key: "consolidateFileGroup (f, ?grp f) = [?g f] \<and> ?R (?g f) f"
    if "f \<in> set (fileNames steps)" for f
  proof -
    have fne: "f \<noteq> []"
      using that file_key_nonempty by (simp add: fileNames_def)
    have "f \<in> fileOf ` set (filter hasFile steps)"
      using that by (simp add: fileNames_def)
    then obtain s where "s \<in> set steps" "hasFile s" "fileOf s = f" by auto
    then have "s \<in> set (?grp f)"
      using fne by (auto simp: hasFile_def fileOf_def truthy_def split: option.splits)
    then have ne: "?grp f \<noteq> []" by (auto simp: filter_empty_conv)
    obtain m where m: "consolidateFileGroup (f, ?grp f) = [m]"
      "length (?grp f) = 1 \<longrightarrow> m = ?grp f ! 0"
      "length (?grp f) \<noteq> 1 \<longrightarrow> consolidateFileSteps (?grp f) f = Some m"
      using consolidateFileGroup_single [OF ne] by blast
    have "?R m f"
      using m(2) m(3) consolidateFileSteps_extremes [OF ne, of f m] by auto
    with m(1) show ?thesis by simp
  qed
  have groups: "groupsOf fileOf (filter hasFile steps) = map (\<lambda>f. (f, ?grp f)) (fileNames steps)"
    unfolding groupsOf_def fileNames_def
    by (rule map_cong [OF refl]) (simp add: file_group file_key_nonempty del: filter_filter)
  have "concat (map consolidateFileGroup (groupsOf fileOf (filter hasFile steps)))
        = concat (map (\<lambda>f. [?g f]) (fileNames steps))"
    unfolding groups map_map comp_def
    by (rule arg_cong [where f = concat], rule map_cong [OF refl]) (use key in blast)
  also have "\<dots> = map ?g (fileNames steps)"
    by (induction "fileNames steps") simp_all
  finally have out: "consolidateByAffectedFile steps
      = map ?g (fileNames steps) @ filter (\<lambda>s. \<not> truthy (affectedFile s)) steps"
    by (simp add: consolidateByAffectedFile_groups hasFile_def)
  have "list_all2 ?R (map ?g (fileNames steps)) (fileNames steps)"
    unfolding list_all2_map1 list_all2_same using key by blast
  with out have "\<exists>merged.
     consolidateByAffectedFile steps = merged @ filter (\<lambda>s. \<not> truthy (affectedFile s)) steps
     \<and> list_all2 ?R merged (fileNames steps)"
    by blast
  moreover have "distinct (fileNames steps)"
    by (simp add: fileNames_def)
  moreover have "set (fileNames steps)
       = {f. f \<noteq> [] \<and> (\<exists>s \<in> set steps. affectedFile s = Some f)}"
  proof (intro set_eqI iffI)
    fix f assume "f \<in> set (fileNames steps)"
    then obtain s where "s \<in> set steps" "hasFile s" "fileOf s = f"
      by (auto simp: fileNames_def)
    then show "f \<in> {f. f \<noteq> [] \<and> (\<exists>s \<in> set steps. affectedFile s = Some f)}"
      using hasFile_iff [of s] by auto
  next
    fix f assume "f \<in> {f. f \<noteq> [] \<and> (\<exists>s \<in> set steps. affectedFile s = Some f)}"
    then obtain s where s: "f \<noteq> []" "s \<in> set steps" "affectedFile s = Some f"
      by auto
    then have "hasFile s" "fileOf s = f"
      using hasFile_iff [of s] by (simp_all add: fileOf_def)
    with s(2) show "f \<in> set (fileNames steps)"
      by (force simp: fileNames_def)
  qed
  ultimately show ?thesis
    unfolding Let_def by blast
qed

subsection \<open>The invariant of the version bounds\<close>

lemma consolidateByType_inv:
  assumes "\<forall>s \<in> set steps. fromV s \<le> toV s \<and> toV s \<le> tv"
  shows "\<forall>s \<in> set (consolidateByType rt steps tv). fromV s \<le> toV s"
proof
  fix x assume "x \<in> set (consolidateByType rt steps tv)"
  then consider (grouped) k vs where "(k, vs) \<in> set (groupsOf typeOf (filter consolidatable steps))"
      "x \<in> set (consolidateTypeGroup rt tv (k, vs))"
    | (plain) "x \<in> set steps"
    by (auto simp: consolidateByType_groups)
  then show "fromV x \<le> toV x"
  proof cases
    case grouped
    have vs: "vs \<noteq> []" "set vs \<subseteq> set steps"
      using groupsOf_member [OF grouped(1)] by auto
    show ?thesis
    proof (cases "k = ''package-update''")
      case True
      obtain m where m: "consolidatePackageUpdates rt vs tv = Some m"
        "fromV m = Min (fromV ` set vs)" "toV m = tv"
        using consolidatePackageUpdates_Some [OF vs(1)] by blast
      have "hd vs \<in> set steps" using vs by auto
      then have "fromV (hd vs) \<le> tv" using assms by force
      moreover have "Min (fromV ` set vs) \<le> fromV (hd vs)"
        using vs(1) by (intro Min_le) auto
      ultimately have "fromV m \<le> toV m" using m by linarith
      with grouped(2) True m(1) show ?thesis
        by (simp add: consolidateTypeGroup_def)
    next
      case False
      then have "x \<in> set vs"
        using grouped(2) removeDuplicateInstructions_subset
        by (auto simp: consolidateTypeGroup_def)
      with vs(2) assms show ?thesis by auto
    qed
  next
    case plain
    with assms show ?thesis by auto
  qed
qed

lemma consolidateFileSteps_inv:
  assumes "grp \<noteq> []" and "\<forall>s \<in> set grp. fromV s \<le> toV s"
    and "consolidateFileSteps grp f = Some m"
  shows "fromV m \<le> toV m"
proof -
  let ?l = "last (sort_key fromV grp)"
  have m: "fromV m = Min (fromV ` set grp)" "toV m = toV ?l" and l: "?l \<in> set grp"
    using consolidateFileSteps_extremes [OF assms(1) assms(3)] by simp_all
  have "Min (fromV ` set grp) \<le> fromV ?l"
    using l by (intro Min_le) auto
  moreover have "fromV ?l \<le> toV ?l"
    using l assms(2) by blast
  ultimately show ?thesis
    using m by linarith
qed

lemma consolidateByAffectedFile_inv:
  assumes "\<forall>s \<in> set steps. fromV s \<le> toV s"
  shows "\<forall>s \<in> set (consolidateByAffectedFile steps). fromV s \<le> toV s"
proof
  fix x assume "x \<in> set (consolidateByAffectedFile steps)"
  then consider (grouped) f vs where "(f, vs) \<in> set (groupsOf fileOf (filter hasFile steps))"
      "x \<in> set (consolidateFileGroup (f, vs))"
    | (plain) "x \<in> set steps"
    by (auto simp: consolidateByAffectedFile_groups)
  then show "fromV x \<le> toV x"
  proof cases
    case grouped
    have vs: "vs \<noteq> []" "set vs \<subseteq> set steps"
      using groupsOf_member [OF grouped(1)] by auto
    obtain m where m: "consolidateFileGroup (f, vs) = [m]"
      "length vs = 1 \<longrightarrow> m = vs ! 0"
      "length vs \<noteq> 1 \<longrightarrow> consolidateFileSteps vs f = Some m"
      using consolidateFileGroup_single [OF vs(1)] by blast
    have "fromV m \<le> toV m"
    proof (cases "length vs = 1")
      case True
      then have "m \<in> set vs" using m(2) by (cases vs) auto
      with vs(2) assms show ?thesis by auto
    next
      case False
      then show ?thesis
        using consolidateFileSteps_inv [OF vs(1), of f m] m(3) vs(2) assms by blast
    qed
    with grouped(2) m(1) show ?thesis by simp
  next
    case plain
    with assms show ?thesis by auto
  qed
qed

text \<open>
  C10. When every catalog step has \<open>from \<le> to\<close>, so has every step the pipeline
  resolves to: the merged package update runs from the least \<open>from\<close> of filtered steps,
  which is at most the requested \<open>toVersion\<close>, to that version, and a merged file step runs
  from the least \<open>from\<close> of its group to the \<open>to\<close> of a member of greatest \<open>from\<close>.
\<close>

theorem pipeline_keeps_from_le_to:
  assumes "\<forall>s \<in> catalogSteps rt. fromV s \<le> toV s"
  shows "\<exists>out. getUpgradeSteps rt framework fromVersion toVersion = Inr out
               \<and> (\<forall>s \<in> set out. fromV s \<le> toV s)"
proof -
  obtain allSteps where load: "loadStepsFromFile rt framework = Inr allSteps"
    using loadStepsFromFile_total by blast
  let ?rel = "relevantSteps allSteps fromVersion toVersion"
  have "\<forall>s \<in> set ?rel. fromV s \<le> toV s \<and> toV s \<le> toVersion"
    using assms loadStepsFromFile_catalog [OF load] by (auto simp: relevantSteps_def)
  then have "\<forall>s \<in> set (consolidateByType rt ?rel toVersion). fromV s \<le> toV s"
    by (rule consolidateByType_inv)
  then have "\<forall>s \<in> set (consolidateSimilarSteps rt ?rel toVersion). fromV s \<le> toV s"
    unfolding consolidateSimilarSteps_def Let_def by (rule consolidateByAffectedFile_inv)
  then have "\<forall>s \<in> set (sortBy (\<lambda>a b. sortCompare (compareSteps a b))
                           (consolidateSimilarSteps rt ?rel toVersion)).
               fromV s \<le> toV s"
    by simp
  then show ?thesis
    by (simp add: getUpgradeSteps_def load)
qed

text \<open>Two steps on \<^verbatim>\<open>next.config.js\<close> merge into one from 1 to 3; the one step on
  \<^verbatim>\<open>tsconfig.json\<close> and the step without a file pass through.\<close>

theorem file_consolidation_shape_witness:
  "consolidateByAffectedFile fileExample
     = [mkStep ''Update next.config.js with multiple configuration changes''
          ''1. **rewrites**:\<newline>Add the rewrites\<newline>\<newline>2. **redirects**:\<newline>Add the redirects''
          1 3 (Some ''configuration'') (Some ''next.config.js''),
        fileExample ! 3, fileExample ! 1]
   \<and> fileNames fileExample = [''next.config.js'', ''tsconfig.json'']
   \<and> filter (\<lambda>s. affectedFile s = Some ''next.config.js'') fileExample
       = [fileExample ! 0, fileExample ! 2]
   \<and> filter (\<lambda>s. affectedFile s = Some ''tsconfig.json'') fileExample = [fileExample ! 3]
   \<and> filter (\<lambda>s. \<not> truthy (affectedFile s)) fileExample = [fileExample ! 1]"
proof -
  have run: "consolidateByAffectedFile fileExample
     = [mkStep ''Update next.config.js with multiple configuration changes''
          ''1. **rewrites**:\<newline>Add the rewrites\<newline>\<newline>2. **redirects**:\<newline>Add the redirects''
          1 3 (Some ''configuration'') (Some ''next.config.js''),
        fileExample ! 3, fileExample ! 1]"
    by code_simp
  have names: "fileNames fileExample = [''next.config.js'', ''tsconfig.json'']"
    by code_simp
  have groups:
    "filter (\<lambda>s. affectedFile s = Some ''next.config.js'') fileExample
       = [fileExample ! 0, fileExample ! 2]"
    "filter (\<lambda>s. affectedFile s = Some ''tsconfig.json'') fileExample = [fileExample ! 3]"
    "filter (\<lambda>s. \<not> truthy (affectedFile s)) fileExample = [fileExample ! 1]"
    by (simp_all add: fileExample_def mkStep_def truthy_def)
  show ?thesis
    using run names groups file_consolidation_shape [of fileExample] by simp
qed

text \<open>A catalog with package updates and a file group, asked for the window from 1 to
  4.\<close>

theorem pipeline_keeps_from_le_to_witness:
  "list_all (\<lambda>s. fromV s \<le> toV s) (packageExample @ fileExample)
   \<and> catalogSteps invariantExample = set (packageExample @ fileExample)
   \<and> map_sum id (map (\<lambda>s. (fromV s, toV s))) (getUpgradeSteps invariantExample ''Next.JS'' 1 4)
       = Inr [(1, 4), (1, 3), (1, 3), (1, 4), (1, 2)]"
proof -
  have each: "list_all (\<lambda>s. fromV s \<le> toV s) (packageExample @ fileExample)"
    by (simp add: packageExample_def fileExample_def mkStep_def)
  have cat: "catalogSteps invariantExample = set (packageExample @ fileExample)"
    by (simp add: catalogSteps_def invariantExample_def exampleRuntime_def)
  have inv: "\<forall>s \<in> catalogSteps invariantExample. fromV s \<le> toV s"
    using each unfolding cat list_all_iff by blast
  have run: "map_sum id (map (\<lambda>s. (fromV s, toV s)))
               (getUpgradeSteps invariantExample ''Next.JS'' 1 4)
             = Inr [(1, 4), (1, 3), (1, 3), (1, 4), (1, 2)]"
    by code_simp
  show ?thesis
    using each cat run pipeline_keeps_from_le_to [OF inv, of "''Next.JS''" 1 4] by simp
qed

subsection \<open>The merged instruction of a file group\<close>

lemma setAdd_set [simp]: "set (setAdd x xs) = insert x (set xs)"
  by (auto simp: setAdd_def)

lemma setAdd_distinct [simp]: "distinct xs \<Longrightarrow> distinct (setAdd x xs)"
  by (simp add: setAdd_def)

lemma uniqueInstructions_fold:
  assumes "distinct acc"
  shows "distinct (foldl (\<lambda>instructions step.
              let baseInstruction = baseInstructionOf (instruction step)
              in if baseInstruction \<noteq> [] then setAdd baseInstruction instructions
                 else instructions) acc steps)
       \<and> set (foldl (\<lambda>instructions step.
              let baseInstruction = baseInstructionOf (instruction step)
              in if baseInstruction \<noteq> [] then setAdd baseInstruction instructions
                 else instructions) acc steps)
         = set acc \<union> (baseInstructionOf ` instruction ` set steps - {[]})"
  using assms
proof (induction steps arbitrary: acc)
  case Nil
  then show ?case by simp
next
  case (Cons s steps)
  show ?case
  proof (cases "baseInstructionOf (instruction s) = []")
    case True
    with Cons.IH [OF Cons.prems] show ?thesis by (auto simp: Let_def)
  next
    case False
    have "distinct (setAdd (baseInstructionOf (instruction s)) acc)"
      using Cons.prems by simp
    from Cons.IH [OF this] False show ?thesis by (auto simp: Let_def)
  qed
qed

lemma getUniqueInstructions_set:
  "set (getUniqueInstructions steps) = baseInstructionOf ` instruction ` set steps - {[]}"
  and getUniqueInstructions_distinct: "distinct (getUniqueInstructions steps)"
  using uniqueInstructions_fold [of "[]" steps]
  by (simp_all add: getUniqueInstructions_def)

lemma getUniqueInstructions_length:
  "length (getUniqueInstructions steps)
     = card (baseInstructionOf ` instruction ` set steps - {[]})"
  using getUniqueInstructions_set [of steps] getUniqueInstructions_distinct [of steps]
  by (metis distinct_card)

text \<open>
  C7 (amended). When a file group is merged, the base instructions are the instructions of
  its members with every phrase \<open>to X.Y(.Z)\<close>, every phrase \<open>version X.Y(.Z)\<close> and
  every version token stripped, trimmed, taken as a set, an empty result left out. If there
  is exactly one, the merged instruction is \<open>Update {fileName} configuration\<close>; if there
  are more, it is \<open>Update {fileName} with multiple configuration changes\<close>. In
  particular two members with the same base instruction, not empty, give a set of size 1.
\<close>

theorem merged_instruction_counts_bases:
  assumes "fileSteps \<noteq> []"
  shows "\<exists>m. consolidateFileSteps fileSteps fileName = Some m
           \<and> (card (baseInstructionOf ` instruction ` set fileSteps - {[]}) = 1
                \<longrightarrow> instruction m = ''Update '' @ fileName @ '' configuration'')
           \<and> (1 < card (baseInstructionOf ` instruction ` set fileSteps - {[]})
                \<longrightarrow> instruction m
                      = ''Update '' @ fileName @ '' with multiple configuration changes'')
           \<and> (\<forall>a b. fileSteps = [a, b]
                      \<and> baseInstructionOf (instruction a) = baseInstructionOf (instruction b)
                      \<and> baseInstructionOf (instruction a) \<noteq> []
                \<longrightarrow> length (getUniqueInstructions (sortBy (\<lambda>a b. fromV a - fromV b) fileSteps)) = 1
                    \<and> instruction m = ''Update '' @ fileName @ '' configuration'')"
proof -
  let ?sorted = "sort_key fromV fileSteps"
  let ?bases = "baseInstructionOf ` instruction ` set fileSteps - {[]}"
  obtain m where m: "consolidateFileSteps fileSteps fileName = Some m"
    "instruction m = createConsolidatedInstruction (getUniqueInstructions ?sorted) fileName"
    using consolidateFileSteps_Some [OF assms] by blast
  have len: "length (getUniqueInstructions ?sorted) = card ?bases"
    by (simp add: getUniqueInstructions_length)
  have one: "card ?bases = 1 \<Longrightarrow> instruction m = ''Update '' @ fileName @ '' configuration''"
    using m(2) len by (simp add: createConsolidatedInstruction_def)
  have many: "1 < card ?bases \<Longrightarrow> instruction m
                      = ''Update '' @ fileName @ '' with multiple configuration changes''"
    using m(2) len by (simp add: createConsolidatedInstruction_def)
  have pair: "card ?bases = 1"
    if "fileSteps = [a, b]"
      "baseInstructionOf (instruction a) = baseInstructionOf (instruction b)"
      "baseInstructionOf (instruction a) \<noteq> []" for a b
  proof -
    have "?bases = {baseInstructionOf (instruction a)}"
      using that by auto
    then show ?thesis by simp
  qed
  show ?thesis
    using m(1) one many pair len by (auto simp: sortBy_fromV)
qed

text \<open>Two steps with the instruction of the specification's scenario, and two steps
  with different instructions.\<close>

theorem merged_instruction_counts_bases_witness:
  "sameInstructionExample \<noteq> []
   \<and> baseInstructionOf (instruction (sameInstructionExample ! 0)) = ''Add redirects config''
   \<and> baseInstructionOf (instruction (sameInstructionExample ! 1)) = ''Add redirects config''
   \<and> map_option instruction (consolidateFileSteps sameInstructionExample ''next.config.js'')
       = Some ''Update next.config.js configuration''
   \<and> mixedInstructionExample \<noteq> []
   \<and> card (baseInstructionOf ` instruction ` set mixedInstructionExample - {[]}) = 2
   \<and> map_option instruction (consolidateFileSteps mixedInstructionExample ''next.config.js'')
       = Some ''Update next.config.js with multiple configuration changes''"
proof -
  have ne: "sameInstructionExample \<noteq> []" "mixedInstructionExample \<noteq> []"
    by (simp_all add: sameInstructionExample_def mixedInstructionExample_def)
  have base: "baseInstructionOf ''Add redirects config'' = ''Add redirects config''"
    "baseInstructionOf ''Add rewrites config'' = ''Add rewrites config''"
    by code_simp+
  have same: "baseInstructionOf (instruction (sameInstructionExample ! 0)) = ''Add redirects config''"
    "baseInstructionOf (instruction (sameInstructionExample ! 1)) = ''Add redirects config''"
    using base by (simp_all add: sameInstructionExample_def mkStep_def)
  have two: "card (baseInstructionOf ` instruction ` set mixedInstructionExample - {[]}) = 2"
    using base by (simp add: mixedInstructionExample_def mkStep_def)
  have shape: "sameInstructionExample = [sameInstructionExample ! 0, sameInstructionExample ! 1]"
    by (simp add: sameInstructionExample_def)
  obtain m where m: "consolidateFileSteps sameInstructionExample ''next.config.js'' = Some m"
    and pair: "\<forall>a b. sameInstructionExample = [a, b]
                      \<and> baseInstructionOf (instruction a) = baseInstructionOf (instruction b)
                      \<and> baseInstructionOf (instruction a) \<noteq> []
                \<longrightarrow> length (getUniqueInstructions
                             (sortBy (\<lambda>a b. fromV a - fromV b) sameInstructionExample)) = 1
                    \<and> instruction m = ''Update '' @ ''next.config.js'' @ '' configuration''"
    using merged_instruction_counts_bases [OF ne(1), of "''next.config.js''"] by blast
  have "instruction m = ''Update '' @ ''next.config.js'' @ '' configuration''"
    using pair [rule_format, of "sameInstructionExample ! 0" "sameInstructionExample ! 1"]
      shape same by simp
  then have first: "map_option instruction
                      (consolidateFileSteps sameInstructionExample ''next.config.js'')
                    = Some ''Update next.config.js configuration''"
    using m by simp
  obtain m' where m': "consolidateFileSteps mixedInstructionExample ''next.config.js'' = Some m'"
    and many: "1 < card (baseInstructionOf ` instruction ` set mixedInstructionExample - {[]})
                \<longrightarrow> instruction m'
                      = ''Update '' @ ''next.config.js'' @ '' with multiple configuration changes''"
    using merged_instruction_counts_bases [OF ne(2), of "''next.config.js''"] by blast
  have second: "map_option instruction
                  (consolidateFileSteps mixedInstructionExample ''next.config.js'')
                = Some ''Update next.config.js with multiple configuration changes''"
    using m' many two by simp
  show ?thesis
    using ne same two first second by simp
qed

text \<open>Two members whose identical instruction is a version token and nothing else: what
  is stripped and trimmed is one string, the empty one, which the source leaves out, and the
  merged instruction is the one for several changes.\<close>

theorem version_only_instructions_counterexample:
  "instruction (versionOnlyExample ! 0) = instruction (versionOnlyExample ! 1)
   \<and> length versionOnlyExample = 2
   \<and> card (baseInstructionOf ` instruction ` set versionOnlyExample) = 1
   \<and> getUniqueInstructions versionOnlyExample = []
   \<and> map_option instruction (consolidateFileSteps versionOnlyExample ''next.config.js'')
       = Some ''Update next.config.js with multiple configuration changes''"
proof -
  have base: "baseInstructionOf ''22.0'' = []" by code_simp
  have "baseInstructionOf ` instruction ` set versionOnlyExample = {[]}"
    using base by (simp add: versionOnlyExample_def mkStep_def)
  then have one: "card (baseInstructionOf ` instruction ` set versionOnlyExample) = 1"
    by simp
  have run: "getUniqueInstructions versionOnlyExample = []"
    "map_option instruction (consolidateFileSteps versionOnlyExample ''next.config.js'')
       = Some ''Update next.config.js with multiple configuration changes''"
    by code_simp+
  show ?thesis
    using one run by (simp add: versionOnlyExample_def mkStep_def)
qed

subsection \<open>The texts of the merged package update\<close>

lemma replaceFrom_drop: "replaceFrom m r k s = replaceFrom m r 0 (drop k s)"
  by (induction m r k s rule: replaceFrom.induct) simp_all

lemma countFrom_drop: "countFrom m k s = countFrom m 0 (drop k s)"
  by (induction m k s rule: countFrom.induct) simp_all

lemma replaceAll_Nil [simp]: "replaceAll m r [] = []"
  by (simp add: replaceAll_def)

lemma replaceAll_match:
  "m (c # cs) = Some (Suc n) \<Longrightarrow> replaceAll m r (c # cs) = r @ replaceAll m r (drop n cs)"
  using replaceFrom_drop [of m r n cs] by (simp add: replaceAll_def)

lemma replaceAll_skip:
  "m (c # cs) = None \<Longrightarrow> replaceAll m r (c # cs) = c # replaceAll m r cs"
  by (simp add: replaceAll_def)

lemma replaceAll_no_match:
  "countMatches m s = 0 \<Longrightarrow> replaceAll m r s = s"
  unfolding countMatches_def replaceAll_def
  by (induction s) (auto split: option.splits nat.splits)

lemma replaceFirst_replaceAll:
  assumes "\<And>t. m t \<noteq> Some 0" and "countMatches m s \<le> 1"
  shows "replaceFirst m r s = replaceAll m r s"
  using assms(2)
proof (induction s)
  case Nil
  show ?case by simp
next
  case (Cons c cs)
  show ?case
  proof (cases "m (c # cs)")
    case None
    with Cons show ?thesis
      by (simp add: replaceAll_skip countMatches_def)
  next
    case (Some k)
    then obtain n where k: "k = Suc n"
      using assms(1) [of "c # cs"] by (cases k) auto
    have "countFrom m n cs = 0"
      using Cons.prems Some k by (simp add: countMatches_def)
    then have "countMatches m (drop n cs) = 0"
      using countFrom_drop [of m n cs] by (simp add: countMatches_def)
    then have "replaceAll m r (drop n cs) = drop n cs"
      by (rule replaceAll_no_match)
    with Some k show ?thesis
      by (simp add: replaceAll_match)
  qed
qed

lemma matchVersion_positive: "matchVersion t \<noteq> Some 0"
proof (cases "digitRun t = 0")
  case True
  then show ?thesis by (simp add: matchVersion_def)
next
  case False
  then show ?thesis by (simp add: matchVersion_def Let_def split: list.split)
qed

lemma toPhrase_positive: "toPhrase t \<noteq> Some 0"
  by (simp add: toPhrase_def matchPrefixed_def Let_def)

text \<open>
  C3 (amended). The merged package update takes its texts from the first member of the
  group. Its instruction always ends in \<open>to {targetVersion}\<close>; when the first member's
  instruction holds at most one phrase \<open>to X.Y(.Z)\<close> and, that removed, at most one
  version token, it is that instruction with every such phrase and token stripped, trimmed,
  then \<open>to {targetVersion}\<close> appended. Its description is the first member's with every
  \<open>@^X.Y(.Z)\<close> replaced by \<open>@^{targetVersion}\<close>, then every \<open>version X.Y(.Z)\<close>
  by \<open>version {targetVersion}\<close>, then every \<open>to X.Y(.Z)\<close> by
  \<open>to {targetVersion}\<close>; a description with none of the three forms is kept as it is,
  whatever version tokens it holds.
\<close>

theorem package_update_texts:
  "\<exists>m. consolidatePackageUpdates rt (s # rest) targetVersion = Some m
     \<and> suffix ('' to '' @ numberToString rt targetVersion) (instruction m)
     \<and> (countMatches toPhrase (instruction s) \<le> 1
          \<and> countMatches matchVersion (replaceAll toPhrase [] (instruction s)) \<le> 1
        \<longrightarrow> instruction m
              = trim (replaceAll matchVersion [] (replaceAll toPhrase [] (instruction s)))
                @ '' to '' @ numberToString rt targetVersion)
     \<and> detailedDescription m
         = replaceAll toPhrase (''to '' @ numberToString rt targetVersion)
             (replaceAll versionPhrase (''version '' @ numberToString rt targetVersion)
                (replaceAll caretVersion (''@^'' @ numberToString rt targetVersion)
                   (detailedDescription s)))
     \<and> (countMatches caretVersion (detailedDescription s) = 0
          \<and> countMatches versionPhrase (detailedDescription s) = 0
          \<and> countMatches toPhrase (detailedDescription s) = 0
        \<longrightarrow> detailedDescription m = detailedDescription s)"
proof -
  let ?t = "numberToString rt targetVersion"
  let ?base = "replaceFirst matchVersion [] (replaceFirst toPhrase [] (instruction s))"
  define m where "m = \<lparr>instruction = trim ?base @ '' to '' @ ?t,
     detailedDescription =
       replaceAll toPhrase (''to '' @ ?t)
         (replaceAll versionPhrase (''version '' @ ?t)
            (replaceAll caretVersion (''@^'' @ ?t) (detailedDescription s))),
     fromV = minOf (map fromV (s # rest)), toV = targetVersion,
     stepType = stepType s, affectedFile = None\<rparr>"
  have run: "consolidatePackageUpdates rt (s # rest) targetVersion = Some m"
    unfolding consolidatePackageUpdates_def m_def Let_def by simp
  have ends: "suffix ('' to '' @ ?t) (instruction m)"
    unfolding m_def by (simp add: suffix_def)
  have instr: "instruction m
      = trim (replaceAll matchVersion [] (replaceAll toPhrase [] (instruction s))) @ '' to '' @ ?t"
    if "countMatches toPhrase (instruction s) \<le> 1"
      "countMatches matchVersion (replaceAll toPhrase [] (instruction s)) \<le> 1"
  proof -
    have a: "replaceFirst toPhrase [] (instruction s) = replaceAll toPhrase [] (instruction s)"
      using toPhrase_positive that(1) by (rule replaceFirst_replaceAll)
    have "replaceFirst matchVersion [] (replaceAll toPhrase [] (instruction s))
          = replaceAll matchVersion [] (replaceAll toPhrase [] (instruction s))"
      using matchVersion_positive that(2) by (rule replaceFirst_replaceAll)
    with a show ?thesis by (simp add: m_def)
  qed
  have same: "detailedDescription m = detailedDescription s"
    if "countMatches caretVersion (detailedDescription s) = 0"
      "countMatches versionPhrase (detailedDescription s) = 0"
      "countMatches toPhrase (detailedDescription s) = 0"
    using that by (simp add: m_def replaceAll_no_match)
  have descr: "detailedDescription m
         = replaceAll toPhrase (''to '' @ ?t)
             (replaceAll versionPhrase (''version '' @ ?t)
                (replaceAll caretVersion (''@^'' @ ?t) (detailedDescription s)))"
    by (simp add: m_def)
  show ?thesis
  proof (intro exI [of _ m] conjI impI)
    show "consolidatePackageUpdates rt (s # rest) targetVersion = Some m" by (rule run)
    show "suffix ('' to '' @ ?t) (instruction m)" by (rule ends)
    show "instruction m
      = trim (replaceAll matchVersion [] (replaceAll toPhrase [] (instruction s))) @ '' to '' @ ?t"
      if "countMatches toPhrase (instruction s) \<le> 1
          \<and> countMatches matchVersion (replaceAll toPhrase [] (instruction s)) \<le> 1"
      using that instr by simp
    show "detailedDescription m
         = replaceAll toPhrase (''to '' @ ?t)
             (replaceAll versionPhrase (''version '' @ ?t)
                (replaceAll caretVersion (''@^'' @ ?t) (detailedDescription s)))"
      by (rule descr)
    show "detailedDescription m = detailedDescription s"
      if "countMatches caretVersion (detailedDescription s) = 0
          \<and> countMatches versionPhrase (detailedDescription s) = 0
          \<and> countMatches toPhrase (detailedDescription s) = 0"
      using that same by simp
  qed
qed

text \<open>A first member with one phrase \<open>to 13.0\<close> in its instruction and the three
  prefixed forms in its description, and one whose description holds a version token
  without a prefix.\<close>

theorem package_update_texts_witness:
  "countMatches toPhrase (instruction (rewriteExample ! 0)) = 1
   \<and> countMatches matchVersion (replaceAll toPhrase [] (instruction (rewriteExample ! 0))) = 0
   \<and> map_option instruction (consolidatePackageUpdates exampleRuntime rewriteExample 14)
       = Some ''Update packages to 14''
   \<and> map_option detailedDescription (consolidatePackageUpdates exampleRuntime rewriteExample 14)
       = Some ''Install next@^14 for version 14 and move to 14''
   \<and> countMatches caretVersion (detailedDescription (plainDescriptionExample ! 0)) = 0
   \<and> countMatches versionPhrase (detailedDescription (plainDescriptionExample ! 0)) = 0
   \<and> countMatches toPhrase (detailedDescription (plainDescriptionExample ! 0)) = 0
   \<and> map_option detailedDescription
         (consolidatePackageUpdates exampleRuntime plainDescriptionExample 14)
       = Some ''Read the React 18.2.0 notes''"
proof -
  have counts:
    "countMatches toPhrase (instruction (rewriteExample ! 0)) = 1"
    "countMatches matchVersion (replaceAll toPhrase [] (instruction (rewriteExample ! 0))) = 0"
    "countMatches caretVersion (detailedDescription (plainDescriptionExample ! 0)) = 0"
    "countMatches versionPhrase (detailedDescription (plainDescriptionExample ! 0)) = 0"
    "countMatches toPhrase (detailedDescription (plainDescriptionExample ! 0)) = 0"
    by code_simp+
  have run:
    "map_option instruction (consolidatePackageUpdates exampleRuntime rewriteExample 14)
       = Some ''Update packages to 14''"
    "map_option detailedDescription (consolidatePackageUpdates exampleRuntime rewriteExample 14)
       = Some ''Install next@^14 for version 14 and move to 14''"
    by code_simp+
  have shape: "plainDescriptionExample = [plainDescriptionExample ! 0]"
    by (simp add: plainDescriptionExample_def)
  obtain m where m: "consolidatePackageUpdates exampleRuntime
                       (plainDescriptionExample ! 0 # []) 14 = Some m"
    and same: "countMatches caretVersion (detailedDescription (plainDescriptionExample ! 0)) = 0
          \<and> countMatches versionPhrase (detailedDescription (plainDescriptionExample ! 0)) = 0
          \<and> countMatches toPhrase (detailedDescription (plainDescriptionExample ! 0)) = 0
        \<longrightarrow> detailedDescription m = detailedDescription (plainDescriptionExample ! 0)"
    using package_update_texts [of exampleRuntime "plainDescriptionExample ! 0" "[]" 14]
    by blast
  have "detailedDescription m = detailedDescription (plainDescriptionExample ! 0)"
    using same counts by simp
  moreover have "detailedDescription (plainDescriptionExample ! 0) = ''Read the React 18.2.0 notes''"
    by (simp add: plainDescriptionExample_def mkStep_def)
  ultimately have plain: "map_option detailedDescription
         (consolidatePackageUpdates exampleRuntime plainDescriptionExample 14)
       = Some ''Read the React 18.2.0 notes''"
    using m shape by simp
  show ?thesis
    using counts run plain by simp
qed

text \<open>The token \<open>18.2.0\<close> follows none of the three prefixes: the source keeps it,
  the specification's wording replaces it.\<close>

theorem bare_version_token_counterexample:
  "map_option detailedDescription (consolidatePackageUpdates exampleRuntime bareTokenExample 14)
     = Some ''Install next@^14 for version 14 and read the React 18.2.0 notes''
   \<and> specDescription (numberToString exampleRuntime 14)
         (detailedDescription (bareTokenExample ! 0))
       = ''Install next@^14 for version 14 and read the React 14 notes''"
  by code_simp

end
